theory Spec2Isabelle
  imports Complex_Main
begin

section \<open>Tax units from CPS households: the data model of cpsrets.py\<close>

text \<open>
  The class \<open>Returns\<close> of \<open>src/cpsrets.py\<close> builds tax units from the persons of a
  household. Persons and units are Python dictionaries; the keys that the modelled
  methods read or write are the fields of the records below, under their source names.
  Carried-through keys that no modelled method reads (weights, identifiers of state and
  region, the \<open>z...\<close> evaluation fields, health insurance fields, \<open>agi\<close>, \<open>year\<close>) are left
  out. Money is a Python float; it is modelled as an exact \<open>real\<close>, so rounding of
  floating-point arithmetic is not part of the model. The alimony column \<open>alm_val\<close> is
  taken as already resolved for the survey year.
\<close>

datatype error = UnboundLocalError | KeyError | IndexError

text \<open>The ten benefit programmes of \<open>ben_list\<close> in \<open>add_benefit\<close> and \<open>convert\<close>.\<close>

datatype ben = SSI | VB | SNAP | MCARE | MCAID | SS | TANF | UI | HOUSING | WIC

text \<open>
  An age stored in a unit is either a number or \<open>np.nan\<close> (the spouse's age of a unit
  without spouse). Every comparison with \<open>np.nan\<close> is false.
\<close>

datatype pynum = NaN | Num int

text \<open>
  A person: one row of the CPS file. \<open>impute b\<close> is the imputed value column of benefit
  \<open>b\<close> (\<open>ssi_impute\<close>, \<open>vb_impute\<close>, \<open>snap_impute\<close>, \<open>MedicareX\<close>, \<open>MedicaidX\<close>,
  \<open>ss_val_y\<close>, \<open>tanf_impute\<close>, \<open>ui_impute\<close>, \<open>housing_impute\<close>, \<open>wic_impute\<close>) and
  \<open>probs b\<close> its probability column. The column \<open>ftype\<close> is the field \<open>p_ftype\<close>
  (the unit has a key \<open>ftype\<close> too). The flags are the ones \<open>__init__\<close> adds.
\<close>

record person =
  a_lineno :: int
  a_spouse :: int
  a_exprrp :: int
  a_maritl :: int
  a_age :: int
  a_enrlw :: int
  ffpos :: int
  h_type :: int
  h_numper :: int
  p_ftype :: int
  wsal_val :: real
  int_val :: real
  div_val :: real
  alm_val :: real
  semp_val :: real
  rtm_val :: real
  rnt_val :: real
  frse_val :: real
  uc_val :: real
  ss_val :: real
  impute :: "ben \<Rightarrow> real"
  probs :: "ben \<Rightarrow> real"
  h_flag :: bool
  s_flag :: bool
  d_flag :: bool
  flag :: bool

definition ss_val_y :: "person \<Rightarrow> real" where
  "ss_val_y p = impute p SS"

text \<open>
  The age counters. \<open>check_age\<close> is called on a unit and on an output record alike, so
  the counters are the common root of both records.
\<close>

record counters =
  nu05 :: nat
  nu13 :: nat
  nu18_dep :: nat
  nu18 :: nat
  n1820 :: nat
  n21 :: nat
  elderly_dependent :: nat
  f2441 :: nat
  EIC :: nat
  n24 :: nat

text \<open>
  The keys of \<open>repeated_vars\<close>, which \<open>output\<close> copies from the unit into its result.
  \<open>tot b\<close> is the running total of benefit \<open>b\<close> (the keys \<open>ssi\<close>, \<open>vb\<close>, ...);
  \<open>PROB\<close> and \<open>VAL\<close> are the positional keys \<open>SSI_PROB1\<close>, \<open>SSI_VAL1\<close>, ...: a
  missing key is \<open>None\<close>. The key \<open>ifdept\<close> is the field \<open>ifdept_flag\<close>, since
  \<open>ifdept\<close> is also a method.
\<close>

record repeated = counters +
  js :: int
  ifdept_flag :: bool
  agede :: int
  depne :: nat
  ageh :: int
  ages :: pynum
  was :: real
  intst :: real
  dbe :: real
  alimony :: real
  bil :: real
  pensions :: real
  rents :: real
  fil :: real
  ucomp :: real
  socsec :: real
  tot :: "ben \<Rightarrow> real"
  PROB :: "ben \<times> nat \<Rightarrow> real option"
  VAL :: "ben \<times> nat \<Rightarrow> real option"
  xfid :: int
  lineno :: int

text \<open>
  A tax unit: the dictionary \<open>create\<close> returns. \<open>dep\<close> and \<open>depage\<close> are the positional
  keys \<open>dep1\<close>, \<open>dep2\<close>, ... and \<open>depage1\<close>, \<open>depage2\<close>, ...
\<close>

record tax_unit = repeated +
  ms_type :: int
  sp_ptr :: int
  relcode :: int
  ftype :: int
  dep :: "nat \<Rightarrow> int option"
  depage :: "nat \<Rightarrow> pynum option"
  ben_number :: nat
  t_flag :: bool

text \<open>
  The output record of \<open>output\<close>: the repeated keys and the computed ones. The keys
  \<open>zoldes\<close> and \<open>zyoung\<close> are left out: when they are written they hold the values of
  \<open>oldest\<close> and \<open>youngest\<close>.
\<close>

record outrec = repeated +
  xxtot :: nat
  xxocawh :: nat
  oldest :: real
  youngest :: real
  zdepin :: real
  income :: real
  filst_out :: int

section \<open>Thresholds set in \<open>__init__\<close>\<close>

definition single :: real where "single = 10150"
definition single65 :: real where "single65 = 11700"
definition hoh :: real where "hoh = 13050"
definition hoh65 :: real where "hoh65 = 14600"
definition joint :: real where "joint = 20300"
definition joint65one :: real where "joint65one = 21500"
definition joint65both :: real where "joint65both = 22700"
definition depwages :: real where "depwages = 0"
definition depTotal :: real where "depTotal = 1000"
definition wage1 :: real where "wage1 = 1000"
definition wage2 :: real where "wage2 = 250"
definition wage2nk :: real where "wage2nk = 10000"
definition wage3 :: real where "wage3 = 1"
definition depExempt :: real where "depExempt = 3950"

lemmas thresholds =
  single_def single65_def hoh_def hoh65_def joint_def joint65one_def joint65both_def
  depwages_def depTotal_def wage1_def wage2_def wage2nk_def wage3_def depExempt_def

section \<open>The age classifier \<open>check_age\<close>\<close>

definition check_age :: "'a counters_scheme \<Rightarrow> int \<Rightarrow> bool \<Rightarrow> 'a counters_scheme" where
  "check_age record age dependent' =
     (if 0 < age \<and> age < 18 then
        (let r1 = record\<lparr>nu18 := nu18 record + 1\<rparr> in
         if dependent' then
           (let r2 = r1\<lparr>EIC := EIC r1 + 1\<rparr>;
                r3 = r2\<lparr>nu18_dep := nu18_dep r2 + 1\<rparr>;
                r4 = (if age \<le> 5 then r3\<lparr>nu05 := nu05 r3 + 1\<rparr>
                      else if age \<le> 13 then r3\<lparr>nu13 := nu13 r3 + 1, f2441 := f2441 r3 + 1\<rparr>
                      else r3)
            in if 0 < age \<and> age \<le> 17 then r4\<lparr>n24 := n24 r4 + 1\<rparr> else r4)
         else r1)
      else if 18 \<le> age \<and> age \<le> 20 then record\<lparr>n1820 := n1820 record + 1\<rparr>
      else if age \<ge> 21 then
        (let r1 = record\<lparr>n21 := n21 record + 1\<rparr> in
         if age \<ge> 65 \<and> dependent'
         then r1\<lparr>elderly_dependent := elderly_dependent r1 + 1\<rparr> else r1)
      else record)"

text \<open>
  \<open>check_age\<close> on a stored age that may be \<open>np.nan\<close>: all three comparisons of
  \<open>check_age\<close> are false on \<open>np.nan\<close>, so nothing is counted.
\<close>

definition check_age_num :: "'a counters_scheme \<Rightarrow> pynum \<Rightarrow> bool \<Rightarrow> 'a counters_scheme" where
  "check_age_num record age dependent' =
     (case age of NaN \<Rightarrow> record | Num a \<Rightarrow> check_age record a dependent')"

section \<open>Total income, relationship, dependency tests\<close>

definition totincx :: "'a repeated_scheme \<Rightarrow> real" where
  "totincx unit =
     was unit + intst unit + dbe unit + alimony unit + bil unit + pensions unit +
     rents unit + fil unit + ucomp unit + socsec unit"

definition gen_code :: "int \<Rightarrow> int" where
  "gen_code c =
     (if c = 5 then -1 else if c = 7 then -2 else if c = 8 then 1
      else if c = 9 then 0 else if c = 11 then -1 else 99)"

definition relation :: "person \<Rightarrow> tax_unit \<Rightarrow> int" where
  "relation person record =
     (let genref = gen_code (relcode record);
          genind = gen_code (a_exprrp person)
      in if genref \<noteq> 99 \<and> genind \<noteq> 99 then genind - genref else 99)"

text \<open>The local \<open>income\<close> of \<open>ifdept\<close>: \<open>int_val\<close> occurs twice in the source sum.\<close>

definition ifdept_income :: "person \<Rightarrow> real" where
  "ifdept_income person =
     wsal_val person + semp_val person + frse_val person + uc_val person +
     ss_val_y person + rtm_val person + int_val person + int_val person +
     div_val person + rnt_val person + alm_val person"

definition ifdept_test4 :: "person \<Rightarrow> tax_unit \<Rightarrow> bool" where
  "ifdept_test4 person record =
     (ifdept_income person \<le> 2500 \<or>
      ((a_exprrp person = 5 \<or> relation person record = -1) \<and>
       (a_age person \<le> 18 \<or> (a_age person \<le> 23 \<and> a_enrlw person > 0))))"

definition ifdept_test5 :: "person \<Rightarrow> tax_unit \<Rightarrow> bool" where
  "ifdept_test5 person record =
     (let income = ifdept_income person; totinc = totincx record
      in if totinc + income > 0 then income / (totinc + income) < 0.5 else True)"

definition ifdept :: "person \<Rightarrow> tax_unit \<Rightarrow> bool" where
  "ifdept person record = (ifdept_test4 person record \<and> ifdept_test5 person record)"

definition must_file :: "person \<Rightarrow> bool" where
  "must_file record =
     (let wages = wsal_val record;
          income = wages + semp_val record + frse_val record + uc_val record +
                   ss_val record + rtm_val record + int_val record + div_val record +
                   rnt_val record + alm_val record
      in wages > depwages \<or> income > depTotal)"

section \<open>Filing status\<close>

text \<open>The local \<open>income\<close> of \<open>filst\<close> (nine streams, without \<open>socsec\<close>).\<close>

definition filst_income :: "'a repeated_scheme \<Rightarrow> real" where
  "filst_income record =
     was record + intst record + dbe record + alimony record + bil record +
     pensions record + rents record + fil record + ucomp record"

text \<open>
  \<open>filst\<close>: each \<open>return\<close> of the source is a branch, in the source's order. A status
  branch that does not return falls through to the dependent filer test.
\<close>

definition filst :: "'a repeated_scheme \<Rightarrow> int" where
  "filst record =
     (let dep_exemption = real (depne record) * depExempt;
          income = filst_income record
      in
      if js record = 1 \<and>
         (was record \<ge> wage1 \<or>
          income \<ge> (if agede record \<noteq> 0 then single65 - dep_exemption
                     else single - dep_exemption)) then 1
      else if js record = 2 \<and>
         ((if depne record > 0 then was record \<ge> wage2 else was record \<ge> wage2nk) \<or>
          income \<ge> (if agede record = 1 then joint65one - dep_exemption
                     else if agede record = 2 then joint65both - dep_exemption
                     else joint - dep_exemption)) then 1
      else if js record = 3 \<and>
         (was record \<ge> wage3 \<or>
          income \<ge> (if agede record \<noteq> 0 then hoh65 - dep_exemption else hoh)) then 1
      else if ifdept_flag record then 1
      else if js record = 3 \<and> agede record > 0 \<and> income > 6500 \<and> depne record > 0 then 0
      else if bil record < 0 \<or> fil record < 0 \<or> rents record < 0 then 1
      else 0)"

text \<open>
  \<open>hhstatus(unit)\<close>: the loop \<open>for unit in self.house_units\<close> rebinds the parameter
  \<open>unit\<close>, so after the loop \<open>unit\<close> is the last element of \<open>house_units\<close> whatever
  unit was passed (passed here as its position \<open>k\<close>). With an empty list the total is
  0 and nothing is read.
\<close>

definition hhstatus :: "tax_unit list \<Rightarrow> nat \<Rightarrow> tax_unit list" where
  "hhstatus house_units k =
     (let income = fold (\<lambda>unit income. income + totincx unit) house_units 0;
          i = (if house_units = [] then k else length house_units - 1)
      in if income > 0 then
           (let unit = house_units ! i; totinc = totincx unit
            in if js unit = 1 \<and> totinc / income > 0.99 then
                 (if \<not> ifdept_flag unit \<and> depne unit > 0
                  then house_units[i := unit\<lparr>js := 3\<rparr>] else house_units)
               else house_units)
         else house_units)"


section \<open>Python lists and loops\<close>

text \<open>A loop whose body may raise: the first error ends it.\<close>

fun fold_err :: "('a \<Rightarrow> 's \<Rightarrow> error + 's) \<Rightarrow> 'a list \<Rightarrow> 's \<Rightarrow> error + 's" where
  "fold_err f [] s = Inr s"
| "fold_err f (x # xs) s = (case f x s of Inl e \<Rightarrow> Inl e | Inr s' \<Rightarrow> fold_err f xs s')"

definition then_err :: "error + 'a \<Rightarrow> ('a \<Rightarrow> error + 'b) \<Rightarrow> error + 'b" where
  "then_err m f = (case m of Inl e \<Rightarrow> Inl e | Inr x \<Rightarrow> f x)"

text \<open>\<open>xs[i]\<close> for an integer \<open>i\<close>: a negative index counts from the end.\<close>

definition py_nth :: "'a list \<Rightarrow> int \<Rightarrow> error + 'a" where
  "py_nth xs i =
     (if 0 \<le> i \<and> i < int (length xs) then Inr (xs ! nat i)
      else if - int (length xs) \<le> i \<and> i < 0 then Inr (xs ! nat (int (length xs) + i))
      else Inl IndexError)"

text \<open>
  \<open>xs.index(x)\<close>: the position of the first element equal to \<open>x\<close>. It is only called
  on an element of the list, so the \<open>ValueError\<close> of an absent element does not arise
  (the model then gives the length). Python compares dictionaries key by key; the
  model compares the records, that is the modelled keys.
\<close>

fun index_of :: "'a list \<Rightarrow> 'a \<Rightarrow> nat" where
  "index_of [] x = 0"
| "index_of (y # ys) x = (if y = x then 0 else Suc (index_of ys x))"

text \<open>The position of the first element that satisfies a test (a \<open>for\<close> with \<open>break\<close>).\<close>

fun first_pos :: "('a \<Rightarrow> bool) \<Rightarrow> 'a list \<Rightarrow> nat option" where
  "first_pos P [] = None"
| "first_pos P (y # ys) =
     (if P y then Some 0 else (case first_pos P ys of None \<Rightarrow> None | Some n \<Rightarrow> Some (Suc n)))"

section \<open>Benefits and dependents of a unit\<close>

text \<open>
  \<open>add_benefit\<close>: one iteration per programme, in the order of \<open>ben_list\<close>.
\<close>

definition add_benefit_step :: "person \<Rightarrow> nat \<Rightarrow> ben \<Rightarrow> tax_unit \<Rightarrow> tax_unit" where
  "add_benefit_step person pos b unit =
     unit\<lparr>tot := (tot unit)(b := tot unit b + impute person b),
          PROB := (PROB unit)((b, pos) \<mapsto> probs person b),
          VAL := (VAL unit)((b, pos) \<mapsto> impute person b)\<rparr>"

definition add_benefit :: "person \<Rightarrow> tax_unit \<Rightarrow> nat \<Rightarrow> tax_unit" where
  "add_benefit person unit pos =
     fold (add_benefit_step person pos)
       [SSI, VB, SNAP, MCARE, MCAID, SS, TANF, UI, HOUSING, WIC] unit"

text \<open>\<open>addept\<close> changes the person (the dependent flag) and the unit.\<close>

definition addept :: "person \<Rightarrow> tax_unit \<Rightarrow> nat \<Rightarrow> person \<times> tax_unit" where
  "addept person record p_index =
     (let person1 = person\<lparr>d_flag := True\<rparr>;
          r1 = record\<lparr>depne := depne record + 1\<rparr>;
          depne1 = depne r1;
          r2 = r1\<lparr>dep := (dep r1)(depne1 \<mapsto> int p_index)\<rparr>;
          r3 = check_age r2 (a_age person1) True;
          r4 = r3\<lparr>depage := (depage r3)(depne1 \<mapsto> Num (a_age person1))\<rparr>;
          r5 = add_benefit person1 r4 (ben_number r4)
      in (person1, r5\<lparr>ben_number := ben_number r5 + 1\<rparr>))"

section \<open>The constructor \<open>create\<close>\<close>

text \<open>
  The unit of a head before the spouse is looked for (the source up to the test of
  \<open>ms_type\<close>). The benefit keys, which the source sets to zero further down and which
  nothing reads in between, are initialised here.
\<close>

definition create_head :: "person \<Rightarrow> tax_unit" where
  "create_head record =
     (let ms = a_maritl record;
          unit =
            \<lparr>nu05 = 0, nu13 = 0, nu18_dep = 0, nu18 = 0, n1820 = 0, n21 = 0,
             elderly_dependent = 0, f2441 = 0, EIC = 0, n24 = 0,
             js = (if ms = 1 \<or> ms = 2 \<or> ms = 3 then 2 else 1),
             ifdept_flag = d_flag record,
             agede = (if a_age record \<ge> 65 then 1 else 0),
             depne = 0, ageh = a_age record, ages = NaN,
             was = wsal_val record, intst = int_val record, dbe = div_val record,
             alimony = alm_val record, bil = semp_val record, pensions = rtm_val record,
             rents = rnt_val record, fil = frse_val record, ucomp = uc_val record,
             socsec = ss_val record, tot = (\<lambda>b. 0),
             PROB = (\<lambda>(b, n). if 1 \<le> n \<and> n \<le> 15 then Some 0 else None),
             VAL = (\<lambda>(b, n). if 1 \<le> n \<and> n \<le> 15 then Some 0 else None),
             xfid = ffpos record, lineno = a_lineno record,
             ms_type = (if ms = 1 \<or> ms = 2 \<or> ms = 3 then 2 else 1),
             sp_ptr = a_spouse record, relcode = a_exprrp record, ftype = p_ftype record,
             dep = Map.empty, depage = Map.empty, ben_number = 0, t_flag = False\<rparr>
      in check_age unit (ageh unit) False)"

text \<open>
  The spouse's part of a joint unit: age, the income streams added to the unit's, in
  the order of the source.
\<close>

definition fold_spouse :: "person \<Rightarrow> tax_unit \<Rightarrow> tax_unit" where
  "fold_spouse spouse unit =
     (let u1 = unit\<lparr>ages := Num (a_age spouse)\<rparr>;
          u2 = (if a_age spouse \<ge> 65 then u1\<lparr>agede := agede u1 + 1\<rparr> else u1);
          u3 = check_age u2 (a_age spouse) False
      in u3\<lparr>was := was u3 + wsal_val spouse,
            intst := intst u3 + int_val spouse,
            dbe := dbe u3 + div_val spouse,
            alimony := alimony u3 + alm_val spouse,
            bil := bil u3 + semp_val spouse,
            pensions := pensions u3 + rtm_val spouse,
            rents := rents u3 + rnt_val spouse,
            fil := fil u3 + frse_val spouse,
            ucomp := ucomp u3 + uc_val spouse,
            socsec := socsec u3 + ss_val_y spouse\<rparr>)"

text \<open>
  The search for the spouse: the first member whose line number is the head's spouse
  pointer and whose spouse pointer is the head's line number.
\<close>

definition find_spouse :: "person \<Rightarrow> person list \<Rightarrow> nat option" where
  "find_spouse record house =
     first_pos (\<lambda>person. a_lineno person = a_spouse record \<and>
                          a_spouse person = a_lineno record) house"

text \<open>
  One iteration of the search for dependents, for the member at position \<open>k\<close>; \<open>r\<close> is
  the position of the head. The flags are written into the household.
\<close>

definition dep_step :: "nat \<Rightarrow> nat \<Rightarrow> tax_unit \<times> person list \<Rightarrow> tax_unit \<times> person list" where
  "dep_step r k st =
     (let unit = fst st; house = snd st; person = house ! k;
          search = (index_of house person \<noteq> index_of house (house ! r) \<and>
                    ffpos person = xfid unit \<and> \<not> d_flag person \<and>
                    \<not> s_flag person \<and> \<not> h_flag person)
      in if search then
           (let person1 = person\<lparr>d_flag := ifdept person unit\<rparr>;
                house1 = house[k := person1]
            in if d_flag person1 then
                 (let pu = addept person1 unit (index_of house1 person1)
                  in (snd pu, house1[k := fst pu]))
               else (unit, house1))
         else (unit, house))"

text \<open>
  \<open>create(record, house)\<close>, with \<open>record\<close> the member at position \<open>r\<close> of \<open>house\<close> (the
  driver always passes a member). The variable \<open>spouse\<close> is bound only by the search
  loop; it is read whenever \<open>sp_ptr\<close> is not zero: first inside the joint branch, and
  for a unit that is not joint at \<open>unit['hi_spouse'] = spouse['hi']\<close>. Reading it
  unbound raises \<open>UnboundLocalError\<close>. The result is the unit and the household with
  its flags updated; the increment of \<open>self.nunits\<close> is made by the caller's model.
\<close>

definition create :: "nat \<Rightarrow> person list \<Rightarrow> error + (tax_unit \<times> person list)" where
  "create r house =
     (let record = house ! r;
          unit0 = create_head record
      in
      then_err
        (if sp_ptr unit0 \<noteq> 0 then
           (if ms_type unit0 = 2 then
              (case find_spouse record house of
                 None \<Rightarrow> Inl UnboundLocalError
               | Some s \<Rightarrow>
                   (let spouse = house ! s;
                        unit1 = fold_spouse spouse unit0;
                        spouse1 = spouse\<lparr>s_flag := True\<rparr>;
                        house1 = house[s := spouse1];
                        unit2 = add_benefit (house1 ! r) unit1 1
                    in Inr (add_benefit spouse1 unit2 2, house1)))
            else Inl UnboundLocalError)
         else Inr (add_benefit record unit0 1, house))
        (\<lambda>st. let unit3 = (fst st)\<lparr>ben_number := 3\<rparr>;
                  st1 = fold (dep_step r) [0..<length house] (unit3, snd st)
              in Inr ((fst st1)\<lparr>t_flag := True\<rparr>, snd st1)))"

section \<open>Merging a unit into another: \<open>convert\<close>\<close>

definition upd :: "nat \<Rightarrow> (tax_unit \<Rightarrow> tax_unit) \<Rightarrow> tax_unit list \<Rightarrow> tax_unit list" where
  "upd i f us = us[i := f (us ! i)]"

text \<open>One iteration of the loop that moves the dependents of \<open>ix\<close> to \<open>iy\<close>.\<close>

definition convert_dep_step ::
    "nat \<Rightarrow> nat \<Rightarrow> nat \<Rightarrow> nat \<Rightarrow> tax_unit list \<Rightarrow> error + tax_unit list" where
  "convert_dep_step ix iy iybgin ndeps us =
     (case dep (us ! ix) ndeps of
        None \<Rightarrow> Inl KeyError
      | Some d \<Rightarrow>
          (let us1 = upd iy (\<lambda>u. u\<lparr>dep := (dep u)(iybgin + ndeps \<mapsto> d)\<rparr>) us;
               us2 = upd ix (\<lambda>u. u\<lparr>dep := (dep u)(iybgin + ndeps \<mapsto> 0)\<rparr>) us1
           in case depage (us2 ! ix) ndeps of
                None \<Rightarrow> Inl KeyError
              | Some a \<Rightarrow>
                  Inr (upd iy (\<lambda>u. u\<lparr>depage := (depage u)(iybgin + ndeps \<mapsto> a)\<rparr>) us2)))"

text \<open>
  The sums of the age counters and of the benefit totals. Each statement of the source
  reads and writes one key, so the ten statements are one update of ten fields.
\<close>

definition add_ages :: "tax_unit \<Rightarrow> tax_unit \<Rightarrow> tax_unit" where
  "add_ages x y =
     y\<lparr>nu05 := nu05 y + nu05 x, nu13 := nu13 y + nu13 x,
       nu18_dep := nu18_dep y + nu18_dep x, nu18 := nu18 y + nu18 x,
       n1820 := n1820 y + n1820 x, n21 := n21 y + n21 x,
       elderly_dependent := elderly_dependent y + elderly_dependent x,
       n24 := n24 y + n24 x, EIC := EIC y + EIC x, f2441 := f2441 y + f2441 x\<rparr>"

definition add_tots :: "tax_unit \<Rightarrow> tax_unit \<Rightarrow> tax_unit" where
  "add_tots x y = y\<lparr>tot := (\<lambda>b. tot y b + tot x b)\<rparr>"

text \<open>
  The transfer of the benefit slots: for the slot \<open>i\<close> of \<open>ix\<close>, one iteration per
  programme at the current position of \<open>iy\<close>, then the position is incremented.
\<close>

definition convert_ben_step :: "nat \<Rightarrow> nat \<Rightarrow> nat \<Rightarrow> ben \<Rightarrow> tax_unit list \<Rightarrow> error + tax_unit list" where
  "convert_ben_step ix iy i b us =
     (let pos = ben_number (us ! iy)
      in case PROB (us ! ix) (b, i) of
           None \<Rightarrow> Inl KeyError
         | Some new_prob \<Rightarrow>
             (let us1 = upd iy (\<lambda>u. u\<lparr>PROB := (PROB u)((b, pos) \<mapsto> new_prob)\<rparr>) us
              in case VAL (us1 ! ix) (b, i) of
                   None \<Rightarrow> Inl KeyError
                 | Some new_val \<Rightarrow>
                     Inr (upd iy (\<lambda>u. u\<lparr>VAL := (VAL u)((b, pos) \<mapsto> new_val)\<rparr>) us1)))"

definition convert_slot_step :: "nat \<Rightarrow> nat \<Rightarrow> nat \<Rightarrow> tax_unit list \<Rightarrow> error + tax_unit list" where
  "convert_slot_step ix iy i us =
     then_err
       (fold_err (convert_ben_step ix iy i)
          [SSI, SNAP, VB, MCARE, MCAID, SS, TANF, UI, HOUSING, WIC] us)
       (\<lambda>us1. Inr (upd iy (\<lambda>u. u\<lparr>ben_number := ben_number u + 1\<rparr>) us1))"

text \<open>
  \<open>convert(ix, iy)\<close> on \<open>self.house_units\<close>. Every statement reads the list as the
  statements before it left it, so the model is also right when \<open>ix = iy\<close>. The
  statements before the loop over the dependents come first: they give the list, the
  local \<open>ixdeps\<close> and the local \<open>iybgin\<close>.
\<close>

definition convert_filers :: "nat \<Rightarrow> nat \<Rightarrow> tax_unit list \<Rightarrow> tax_unit list \<times> nat \<times> nat" where
  "convert_filers ix iy us =
     (let s1 = upd ix (\<lambda>u. u\<lparr>ifdept_flag := True\<rparr>) us;
          ixdeps = depne (s1 ! ix);
          iydeps = depne (s1 ! iy);
          s2 = upd ix (\<lambda>u. u\<lparr>depne := 0\<rparr>) s1;
          ixjs = js (s2 ! ix)
      in if ixjs = 2 then
           (let a1 = upd iy (\<lambda>u. u\<lparr>depne := depne u + (ixdeps + 2)\<rparr>) s2;
                a2 = upd iy (\<lambda>u. u\<lparr>dep := (dep u)(iydeps + 1 \<mapsto> int ix)\<rparr>) a1;
                a3 = upd iy (\<lambda>u. u\<lparr>dep := (dep u)(iydeps + 2 \<mapsto> sp_ptr (a2 ! ix))\<rparr>) a2;
                a4 = upd iy (\<lambda>u. u\<lparr>depage := (depage u)(iydeps + 1 \<mapsto> Num (ageh (a3 ! ix)))\<rparr>) a3;
                a5 = upd iy (\<lambda>u. u\<lparr>depage := (depage u)(iydeps + 2 \<mapsto> ages (a4 ! ix))\<rparr>) a4
            in (a5, ixdeps, iydeps + 2))
         else
           (let a1 = upd iy (\<lambda>u. u\<lparr>depne := depne u + (ixdeps + 1)\<rparr>) s2;
                a2 = upd iy (\<lambda>u. u\<lparr>dep := (dep u)(iydeps + 1 \<mapsto> int ix)\<rparr>) a1;
                a3 = upd iy (\<lambda>u. u\<lparr>depage := (depage u)(iydeps + 1 \<mapsto> Num (ageh (a2 ! ix)))\<rparr>) a2
            in (a3, ixdeps, iydeps + 1)))"

text \<open>The sums of the age counters and of the benefit totals, after that loop.\<close>

definition convert_sums :: "nat \<Rightarrow> nat \<Rightarrow> tax_unit list \<Rightarrow> tax_unit list" where
  "convert_sums ix iy s4 =
     (let s5 = upd iy (add_ages (s4 ! ix)) s4
      in upd iy (add_tots (s5 ! ix)) s5)"

definition convert :: "nat \<Rightarrow> nat \<Rightarrow> tax_unit list \<Rightarrow> error + tax_unit list" where
  "convert ix iy us =
     (if ix \<ge> length us \<or> iy \<ge> length us then Inl IndexError
      else
        (let hd3 = convert_filers ix iy us;
             s3 = fst hd3; ixdeps = fst (snd hd3); iybgin = snd (snd hd3)
         in
         then_err (fold_err (convert_dep_step ix iy iybgin) [1..<ixdeps + 1] s3)
           (\<lambda>s4. let s6 = convert_sums ix iy s4
                 in fold_err (convert_slot_step ix iy) [1..<ben_number (s6 ! ix)] s6)))"

section \<open>The reconciliation pass \<open>search\<close>\<close>

text \<open>The first loop of \<open>search\<close>: the highest total income and the index it leaves.\<close>

definition find_highest :: "tax_unit list \<Rightarrow> real \<times> nat" where
  "find_highest house_units =
     fold (\<lambda>unit hi. if totincx unit \<ge> fst hi
                      then (totincx unit, index_of house_units unit) else hi)
       house_units (- (99 * 10 ^ 31), 0)"

text \<open>The two statements that fold a unit: it stops being a tax unit and is converted.\<close>

definition fold_into :: "nat \<Rightarrow> nat \<Rightarrow> tax_unit list \<Rightarrow> error + tax_unit list" where
  "fold_into ix iy us = convert ix iy (upd ix (\<lambda>u. u\<lparr>t_flag := False\<rparr>) us)"

text \<open>
  One iteration of the second loop. The tests are made on the values read at the
  start of the iteration (\<open>convert\<close> changes no income).
\<close>

definition search_step :: "nat \<Rightarrow> real \<Rightarrow> nat \<Rightarrow> tax_unit list \<Rightarrow> error + tax_unit list" where
  "search_step idxhigh highest ix us =
     (if ix \<ge> length us then Inl IndexError
      else
        (let unit = us ! ix;
             idxjs = js unit; idxdepf = ifdept_flag unit;
             idxrelc = relcode unit; idxfamt = ftype unit;
             convert1 = (ix \<noteq> idxhigh \<and> \<not> idxdepf \<and> highest > 0 \<and> idxjs \<noteq> 2)
         in if convert1 then
              then_err
                (if idxfamt = 1 \<or> idxfamt = 3 \<or> idxfamt = 5 then
                   (let totinc = totincx unit
                    in then_err
                         (if totinc \<le> 0 then fold_into ix idxhigh us else Inr us)
                         (\<lambda>us1. if 0 < totinc \<and> totinc \<le> 3000
                                then fold_into ix idxhigh us1 else Inr us1))
                 else Inr us)
                (\<lambda>us2. if idxrelc = 11 then fold_into ix idxhigh us2 else Inr us2)
            else Inr us))"

definition search :: "nat \<Rightarrow> tax_unit list \<Rightarrow> error + tax_unit list" where
  "search nunits house_units =
     (let hi = find_highest house_units; highest = fst hi; idxhigh = snd hi
      in if idxhigh \<ge> length house_units then Inl IndexError
         else if \<not> ifdept_flag (house_units ! idxhigh)
         then fold_err (search_step idxhigh highest) [0..<nunits] house_units
         else Inr house_units)"

section \<open>The output record \<open>output\<close>\<close>

text \<open>
  The reset of the counters when the person count is found inconsistent. The source
  line \<open>record['elderly_dependent'] - 0.\<close> is an expression statement: it assigns
  nothing, so \<open>elderly_dependent\<close> keeps its value.
\<close>

definition output_reset :: "outrec \<Rightarrow> outrec" where
  "output_reset record =
     (let r1 = record\<lparr>xxtot := 1, nu18 := 0, n1820 := 0, n21 := 0, n24 := 0, EIC := 0,
                     f2441 := 0, nu18_dep := 0, nu05 := 0, nu13 := 0\<rparr>;
          r2 = check_age r1 (ageh r1) False
      in if js r2 = 2 then check_age_num (r2\<lparr>xxtot := xxtot r2 + 1\<rparr>) (ages r2) False
         else r2)"

text \<open>
  The loop over the dependents' relationship codes. Its tallies \<open>xxopar\<close>, \<open>xxoodep\<close>
  and \<open>xxocah\<close> are locals that are never stored; what remains is the two lookups,
  which may raise, and the recount when \<open>eflag\<close> is set.
\<close>

definition output_count_step ::
    "tax_unit \<Rightarrow> person list \<Rightarrow> bool \<Rightarrow> nat \<Rightarrow> outrec \<Rightarrow> error + outrec" where
  "output_count_step unit house eflag i record =
     (case dep unit i of
        None \<Rightarrow> Inl KeyError
      | Some dindex \<Rightarrow>
          (case py_nth house dindex of
             Inl e \<Rightarrow> Inl e
           | Inr p \<Rightarrow>
               Inr (if eflag
                    then check_age (record\<lparr>xxtot := xxtot record + 1\<rparr>) (a_age p) True
                    else record)))"

definition output_age_step :: "tax_unit \<Rightarrow> nat \<Rightarrow> real \<times> real \<Rightarrow> error + real \<times> real" where
  "output_age_step unit i oy =
     (case depage unit i of
        None \<Rightarrow> Inl KeyError
      | Some NaN \<Rightarrow> Inr oy
      | Some (Num dage) \<Rightarrow>
          Inr (if real_of_int dage > fst oy then real_of_int dage else fst oy,
               if real_of_int dage < snd oy then real_of_int dage else snd oy))"

definition output_zdepin_step :: "tax_unit \<Rightarrow> person list \<Rightarrow> nat \<Rightarrow> real \<Rightarrow> error + real" where
  "output_zdepin_step unit house i z =
     (case dep unit i of
        None \<Rightarrow> Inl KeyError
      | Some dindex \<Rightarrow>
          (case py_nth house dindex of
             Inl e \<Rightarrow> Inl e
           | Inr p \<Rightarrow>
               Inr (if \<not> flag p
                    then wsal_val p + semp_val p + frse_val p + uc_val p + ss_val p +
                         semp_val p + rtm_val p + int_val p + div_val p + alm_val p
                    else z)))"

text \<open>
  \<open>output(unit, house)\<close>, named \<open>output_rec\<close> here. The record starts as the copy of the repeated keys; \<open>txpye\<close>
  is 2 when \<open>js\<close> is 1 and 1 otherwise, as the source has it.
\<close>

definition output_rec :: "tax_unit \<Rightarrow> person list \<Rightarrow> error + outrec" where
  "output_rec unit house =
     (let depne0 = depne unit;
          txpye = (if js unit = 1 then 2 else 1);
          record0 = repeated.extend (repeated.truncate unit)
                      (outrec.fields (txpye + depne0) 0 0 0 0 0 0);
          nsums = nu18 record0 + n1820 record0 + n21 record0;
          eflag = (if xxtot record0 \<noteq> nsums then True else n24 record0 > nu18 record0);
          record1 = (if eflag then output_reset record0 else record0)
      in
      then_err (fold_err (output_count_step unit house eflag) [1..<depne0 + 1] record1)
        (\<lambda>record2.
           then_err
             (if depne0 > 0
              then fold_err (output_age_step unit) [1..<depne0 + 1]
                     (- (99 * 10 ^ 15), 99 * 10 ^ 15)
              else Inr (0, 0))
             (\<lambda>oy.
                then_err (fold_err (output_zdepin_step unit house) [1..<depne0 + 1] 0)
                  (\<lambda>z. Inr (record2\<lparr>oldest := fst oy, youngest := snd oy, zdepin := z,
                                     income := totincx unit, filst_out := filst unit\<rparr>)))))"

section \<open>The driver \<open>computation\<close>, for one household\<close>

text \<open>
  The state of the loop over a household: \<open>self.nunits\<close>, \<open>self.house_units\<close> and the
  household \<open>house_dicts\<close>, whose members carry the flags. \<open>create_append k\<close> is
  \<open>self.house_units.append(self.create(person, house_dicts))\<close> for the member at
  position \<open>k\<close>, with the increment of \<open>self.nunits\<close> that \<open>create\<close> makes.
\<close>

type_synonym hstate = "nat \<times> tax_unit list \<times> person list"

definition create_append :: "nat \<Rightarrow> hstate \<Rightarrow> error + hstate" where
  "create_append k st =
     (case st of (nunits, house_units, house) \<Rightarrow>
        then_err (create k house)
          (\<lambda>uh. Inr (nunits + 1, house_units @ [fst uh], snd uh)))"

text \<open>One iteration of the loop over the members of a family household.\<close>

definition family_step :: "nat \<Rightarrow> hstate \<Rightarrow> error + hstate" where
  "family_step k st =
     then_err
       (let person = snd (snd st) ! k;
            not_flagged = (\<not> h_flag person \<and> \<not> s_flag person \<and> \<not> d_flag person)
        in if not_flagged then create_append k st else Inr st)
       (\<lambda>st1.
          then_err
            (let person = snd (snd st1) ! k
             in if \<not> s_flag person \<and> d_flag person \<and> must_file person
                then create_append k st1 else Inr st1)
            (\<lambda>st2. case st2 of (nunits, house_units, house) \<Rightarrow>
               if nunits > 1
               then then_err (search nunits house_units) (\<lambda>us. Inr (nunits, us, house))
               else Inr st2))"

text \<open>
  The units of one household, by its type: a single person living alone, a group
  household (one unit per member), any other household.
\<close>

definition build_units :: "person list \<Rightarrow> error + hstate" where
  "build_units house_dicts =
     (case house_dicts of
        [] \<Rightarrow> Inl IndexError
      | head # _ \<Rightarrow>
          (let single = ((h_type head = 6 \<or> h_type head = 7) \<and> h_numper head = 1);
               group = (h_type head = 9)
           in if single then create_append 0 (0, [], house_dicts)
              else if group
              then fold_err create_append [0..<length house_dicts] (0, [], house_dicts)
              else fold_err family_step [0..<length house_dicts] (0, [], house_dicts)))"

text \<open>
  The rest of the loop body. The repository is Python 3 (\<open>merge_benefits.py\<close> uses
  f-strings), where \<open>map(self.hhstatus, self.house_units)\<close> only builds an iterator;
  the driver never consumes it, so \<open>hhstatus\<close> is not run and the units reach \<open>output\<close>
  as \<open>build_units\<close> leaves them: one output record per unit whose \<open>t_flag\<close> is set.
\<close>

definition emit_units :: "tax_unit list \<Rightarrow> person list \<Rightarrow> error + outrec list" where
  "emit_units house_units house =
     fold_err (\<lambda>unit acc. if t_flag unit
                           then then_err (output_rec unit house) (\<lambda>r. Inr (acc @ [r]))
                           else Inr acc)
       house_units []"

definition computation_household :: "person list \<Rightarrow> error + outrec list" where
  "computation_household house_dicts =
     then_err (build_units house_dicts)
       (\<lambda>st. case st of (nunits, house_units, house) \<Rightarrow>
          emit_units house_units house)"

section \<open>Auxiliary notions for the proofs\<close>

text \<open>
  The part of a unit that the slot loops of \<open>convert\<close> leave alone: the age counters,
  the benefit totals, the dependent count, the flags, the filing status, the total
  income and the two codes \<open>search\<close> reads.
\<close>

definition core ::
    "tax_unit \<Rightarrow> (nat \<times> nat \<times> nat \<times> nat \<times> nat \<times> nat \<times> nat \<times> nat \<times> nat \<times> nat) \<times>
       (ben \<Rightarrow> real) \<times> nat \<times> bool \<times> bool \<times> int \<times> real \<times> int \<times> int" where
  "core u =
     ((nu05 u, nu13 u, nu18_dep u, nu18 u, n1820 u, n21 u, elderly_dependent u,
       f2441 u, EIC u, n24 u),
      tot u, depne u, ifdept_flag u, t_flag u, js u, totincx u, relcode u, ftype u)"

text \<open>
  Two lists of units that differ only in the slots of the units at \<open>ix\<close> and \<open>iy\<close>.
\<close>

definition slot_frame :: "nat \<Rightarrow> nat \<Rightarrow> tax_unit list \<Rightarrow> tax_unit list \<Rightarrow> bool" where
  "slot_frame ix iy s s' =
     (length s' = length s \<and> map core s' = map core s \<and>
      (\<forall>k. k \<noteq> ix \<and> k \<noteq> iy \<longrightarrow> s' ! k = s ! k))"

text \<open>
  Two lists in which the dependent slots \<open>1..m\<close> of the unit at \<open>iy\<close> are the same.
\<close>

definition dep_keep :: "nat \<Rightarrow> nat \<Rightarrow> tax_unit list \<Rightarrow> tax_unit list \<Rightarrow> bool" where
  "dep_keep iy m s s' = (length s' = length s \<and> (\<forall>n\<le>m. dep (s' ! iy) n = dep (s ! iy) n))"

text \<open>The sum of a quantity over the surviving units (those whose \<open>t_flag\<close> is set).\<close>

definition surviving_sum :: "(tax_unit \<Rightarrow> 'a::comm_monoid_add) \<Rightarrow> tax_unit list \<Rightarrow> 'a" where
  "surviving_sum f us = sum_list (map f (filter t_flag us))"

text \<open>
  The body of the first loop of \<open>search\<close>, and what holds after it has seen the first
  \<open>m\<close> units: the pair is the income of some unit \<open>j\<close> and the index \<open>index\<close> gives
  for it, no unit seen has more, and no unit seen after \<open>j\<close> has as much.
\<close>

definition highest_step :: "tax_unit list \<Rightarrow> tax_unit \<Rightarrow> real \<times> nat \<Rightarrow> real \<times> nat" where
  "highest_step us unit hi =
     (if totincx unit \<ge> fst hi then (totincx unit, index_of us unit) else hi)"

definition highest_inv :: "tax_unit list \<Rightarrow> nat \<Rightarrow> real \<times> nat \<Rightarrow> bool" where
  "highest_inv us m hi =
     (\<exists>j<m. fst hi = totincx (us ! j) \<and> snd hi = index_of us (us ! j) \<and>
        (\<forall>k<m. totincx (us ! k) \<le> fst hi) \<and>
        (\<forall>k<m. j < k \<longrightarrow> totincx (us ! k) < fst hi))"

text \<open>
  The test \<open>convert1\<close> of \<open>search\<close> for the unit at \<open>ix\<close>; the fields that folding a
  unit \<open>ix\<close> leaves alone in every unit; and what holds of the list \<open>s\<close> that the second
  loop has reached from \<open>us\<close>: a unit whose \<open>t_flag\<close> or \<open>ifdept\<close> differs passed the test.
\<close>

definition fold_guard :: "tax_unit list \<Rightarrow> nat \<Rightarrow> real \<Rightarrow> nat \<Rightarrow> bool" where
  "fold_guard us idxhigh highest ix =
     (ix \<noteq> idxhigh \<and> \<not> ifdept_flag (us ! ix) \<and> highest > 0 \<and> js (us ! ix) \<noteq> 2)"

definition flags_frame :: "nat \<Rightarrow> tax_unit list \<Rightarrow> tax_unit list \<Rightarrow> bool" where
  "flags_frame ix s s' =
     (length s' = length s \<and>
      (\<forall>k<length s. js (s' ! k) = js (s ! k) \<and>
         (k \<noteq> ix \<longrightarrow> t_flag (s' ! k) = t_flag (s ! k) \<and>
                     ifdept_flag (s' ! k) = ifdept_flag (s ! k))))"

definition search_inv :: "tax_unit list \<Rightarrow> nat \<Rightarrow> real \<Rightarrow> tax_unit list \<Rightarrow> bool" where
  "search_inv us idxhigh highest s =
     (length s = length us \<and>
      (\<forall>k<length us. js (s ! k) = js (us ! k) \<and>
         ((t_flag (s ! k) \<noteq> t_flag (us ! k) \<or> ifdept_flag (s ! k) \<noteq> ifdept_flag (us ! k))
            \<longrightarrow> fold_guard us idxhigh highest k)))"

text \<open>
  What one call \<open>convert(ix, iy)\<close> followed by the clearing of \<open>t_flag\<close> does to the list,
  as far as \<open>search\<close> is concerned: the unit at \<open>ix\<close> becomes a dependent without
  dependents of its own, the unit at \<open>iy\<close> keeps its status, flags, income and old
  dependent slots and receives, in a new slot, the index \<open>ix\<close>; no other unit changes.
\<close>

definition folded_into :: "nat \<Rightarrow> nat \<Rightarrow> tax_unit list \<Rightarrow> tax_unit list \<Rightarrow> bool" where
  "folded_into ix iy a b =
     (length b = length a \<and>
      (\<forall>k. k \<noteq> ix \<and> k \<noteq> iy \<longrightarrow> b ! k = a ! k) \<and>
      \<not> t_flag (b ! ix) \<and> ifdept_flag (b ! ix) \<and> depne (b ! ix) = 0 \<and>
      js (b ! ix) = js (a ! ix) \<and>
      depne (a ! iy) < depne (b ! iy) \<and>
      (\<exists>m. depne (a ! iy) < m \<and> m \<le> depne (b ! iy) \<and> dep (b ! iy) m = Some (int ix)) \<and>
      (\<forall>n. n \<le> depne (a ! iy) \<longrightarrow> dep (b ! iy) n = dep (a ! iy) n) \<and>
      js (b ! iy) = js (a ! iy) \<and> t_flag (b ! iy) = t_flag (a ! iy) \<and>
      ifdept_flag (b ! iy) = ifdept_flag (a ! iy) \<and> totincx (b ! iy) = totincx (a ! iy))"

text \<open>
  What holds of the list \<open>s\<close> that the second loop of \<open>search\<close> has reached from \<open>us\<close>: the
  unit at \<open>idxhigh\<close> keeps its status, flags, income and old dependent slots; every other
  unit is the unit it was, or it passed the test \<open>convert1\<close>, is now a dependent, and its
  index stands in a new dependent slot of the unit at \<open>idxhigh\<close>.
\<close>

definition target_inv :: "tax_unit list \<Rightarrow> nat \<Rightarrow> real \<Rightarrow> tax_unit list \<Rightarrow> bool" where
  "target_inv us hi hst s =
     (length s = length us \<and> depne (us ! hi) \<le> depne (s ! hi) \<and>
      (\<forall>n. n \<le> depne (us ! hi) \<longrightarrow> dep (s ! hi) n = dep (us ! hi) n) \<and>
      js (s ! hi) = js (us ! hi) \<and> t_flag (s ! hi) = t_flag (us ! hi) \<and>
      ifdept_flag (s ! hi) = ifdept_flag (us ! hi) \<and> totincx (s ! hi) = totincx (us ! hi) \<and>
      (\<forall>k. k < length us \<and> k \<noteq> hi \<longrightarrow>
         s ! k = us ! k \<or>
         (fold_guard us hi hst k \<and> \<not> t_flag (s ! k) \<and> ifdept_flag (s ! k) \<and>
          depne (s ! k) = 0 \<and>
          (\<exists>m. depne (us ! hi) < m \<and> m \<le> depne (s ! hi) \<and>
               dep (s ! hi) m = Some (int k)))))"


definition uident :: "tax_unit \<Rightarrow> int \<times> int" where
  "uident u = (lineno u, ageh u)"

text \<open>The test of \<open>output\<close> that sets \<open>eflag\<close>, on the unit's own fields.\<close>

definition output_eflag :: "tax_unit \<Rightarrow> bool" where
  "output_eflag unit =
     (nu18 unit + n1820 unit + n21 unit \<noteq> (if js unit = 1 then 2 else 1) + depne unit \<or>
      n24 unit > nu18 unit)"

section \<open>Concrete persons and units\<close>

text \<open>
  A person and a unit with every number zero and every flag false; the concrete inputs
  below are updates of them.
\<close>

definition blank_person :: person where
  "blank_person =
     \<lparr>a_lineno = 1, a_spouse = 0, a_exprrp = 0, a_maritl = 7, a_age = 0, a_enrlw = 0,
      ffpos = 1, h_type = 1, h_numper = 1, p_ftype = 0, wsal_val = 0, int_val = 0, div_val = 0,
      alm_val = 0, semp_val = 0, rtm_val = 0, rnt_val = 0, frse_val = 0, uc_val = 0,
      ss_val = 0, impute = (\<lambda>b. 0), probs = (\<lambda>b. 0), h_flag = False, s_flag = False,
      d_flag = False, flag = False\<rparr>"

definition blank_unit :: tax_unit where
  "blank_unit =
     \<lparr>nu05 = 0, nu13 = 0, nu18_dep = 0, nu18 = 0, n1820 = 0, n21 = 0,
      elderly_dependent = 0, f2441 = 0, EIC = 0, n24 = 0,
      js = 1, ifdept_flag = False, agede = 0, depne = 0, ageh = 0, ages = NaN,
      was = 0, intst = 0, dbe = 0, alimony = 0, bil = 0, pensions = 0, rents = 0,
      fil = 0, ucomp = 0, socsec = 0, tot = (\<lambda>b. 0),
      PROB = (\<lambda>(b, n). if 1 \<le> n \<and> n \<le> 15 then Some 0 else None),
      VAL = (\<lambda>(b, n). if 1 \<le> n \<and> n \<le> 15 then Some 0 else None),
      xfid = 1, lineno = 1,
      ms_type = 1, sp_ptr = 0, relcode = 0, ftype = 0, dep = Map.empty,
      depage = Map.empty, ben_number = 3, t_flag = True\<rparr>"

text \<open>
  A head-of-household unit of a filer of 65 with one dependent, a pension of 9000 and a
  business loss of 1000.
\<close>

definition hoh_loss_unit :: tax_unit where
  "hoh_loss_unit =
     blank_unit\<lparr>js := 3, agede := 1, depne := 1, ageh := 70, n21 := 1, nu18 := 1,
           pensions := 9000, bil := - 1000\<rparr>"

text \<open>A single unit with a business loss of 1000 and nothing else.\<close>

definition single_loss_unit :: tax_unit where
  "single_loss_unit = blank_unit\<lparr>ageh := 40, n21 := 1, bil := - 1000\<rparr>"

text \<open>
  An adult of 30, not a child of the head, whose only income is 1300 of interest, and
  the unit of a head with wages of 50000.
\<close>

definition interest_person :: person where
  "interest_person = blank_person\<lparr>a_lineno := 2, a_exprrp := 9, a_age := 30, int_val := 1300\<rparr>"

definition wage_unit :: tax_unit where
  "wage_unit = blank_unit\<lparr>ageh := 45, n21 := 1, relcode := 1, was := 50000\<rparr>"

text \<open>
  The aggregate income as the specification words it: the ten streams, each once.
\<close>

definition aggregate_income_spec :: "person \<Rightarrow> real" where
  "aggregate_income_spec person =
     wsal_val person + semp_val person + frse_val person + uc_val person +
     ss_val_y person + rtm_val person + int_val person + div_val person +
     rnt_val person + alm_val person"

text \<open>
  A household with two units: a single parent with wages of 50000 and one dependent,
  and a single adult without income.
\<close>

definition parent_unit :: tax_unit where
  "parent_unit =
     blank_unit\<lparr>ageh := 40, n21 := 1, nu18 := 1, EIC := 1, nu18_dep := 1, nu13 := 1,
           f2441 := 1, n24 := 1, depne := 1, was := 50000, relcode := 1,
           dep := [1 \<mapsto> 1], depage := [1 \<mapsto> Num 10]\<rparr>"

definition idle_unit :: tax_unit where
  "idle_unit = blank_unit\<lparr>ageh := 30, n21 := 1, relcode := 9, xfid := 2, lineno := 3\<rparr>"

text \<open>
  The unit of a sub-family head of 25 with one child of 3, wages of 2000 and a SNAP
  benefit of 1200; its relationship code is 11 and its family type 1.
\<close>

definition subfamily_unit :: tax_unit where
  "subfamily_unit =
     blank_unit\<lparr>ageh := 25, n21 := 1, nu18 := 1, EIC := 1, nu18_dep := 1, nu05 := 1,
           n24 := 1, depne := 1, relcode := 11, ftype := 1, was := 2000, xfid := 2,
           lineno := 3, tot := (\<lambda>b. if b = SNAP then 1200 else 0),
           dep := [1 \<mapsto> 3], depage := [1 \<mapsto> Num 3], ben_number := 4\<rparr>"

text \<open>
  A family household: a married couple of 30 who point to each other, the husband with
  wages of 40000, and a third member: their child in its first year (age 0), or the
  husband's mother of 70 without income.
\<close>

definition husband :: person where
  "husband = blank_person\<lparr>a_lineno := 1, a_spouse := 2, a_exprrp := 1, a_maritl := 1,
       a_age := 30, h_numper := 3, wsal_val := 40000\<rparr>"

definition wife :: person where
  "wife = blank_person\<lparr>a_lineno := 2, a_spouse := 1, a_exprrp := 3, a_maritl := 1,
       a_age := 30, h_numper := 3\<rparr>"

definition baby :: person where
  "baby = blank_person\<lparr>a_lineno := 3, a_exprrp := 5, a_age := 0, h_numper := 3\<rparr>"

definition grandma :: person where
  "grandma = blank_person\<lparr>a_lineno := 3, a_exprrp := 8, a_maritl := 4, a_age := 70,
       h_numper := 3\<rparr>"

text \<open>
  The counters as the specification says they are recomputed: from zero, the head's
  age, the spouse's age if the unit is joint, then the age of every dependent.
\<close>

definition recount_spec :: "int \<Rightarrow> bool \<Rightarrow> pynum \<Rightarrow> int list \<Rightarrow> counters" where
  "recount_spec head_age is_joint spouse_age dep_ages =
     (let zero = \<lparr>nu05 = 0, nu13 = 0, nu18_dep = 0, nu18 = 0, n1820 = 0, n21 = 0,
                  elderly_dependent = 0, f2441 = 0, EIC = 0, n24 = 0\<rparr>;
          r1 = check_age zero head_age False;
          r2 = (if is_joint then check_age_num r1 spouse_age False else r1)
      in fold (\<lambda>a r. check_age r a True) dep_ages r2)"

text \<open>
  The wife without her spouse pointer: the husband's pointer is then one-sided.
\<close>

definition stray_wife :: person where
  "stray_wife = wife\<lparr>a_spouse := 0\<rparr>"

text \<open>
  A group quarters household (household type 9) of the couple and a child of 10, all of
  one family.
\<close>

definition child10 :: person where
  "child10 = blank_person\<lparr>a_lineno := 3, a_exprrp := 5, a_age := 10, h_numper := 3\<rparr>"


text \<open>
  A household of a single parent of 40 with wages of 50000 and the child of 10.
\<close>

definition lone_parent :: person where
  "lone_parent = blank_person\<lparr>a_lineno := 1, a_exprrp := 1, a_age := 40, h_numper := 2,
       wsal_val := 50000\<rparr>"

text \<open>
  A third unit for the household of the wage earner and the sub-family: a roomer of 50
  with wages of 10000, who is no relative of the head.
\<close>

definition roomer_unit :: tax_unit where
  "roomer_unit = blank_unit\<lparr>ageh := 50, n21 := 1, relcode := 9, xfid := 3, lineno := 5,
       was := 10000\<rparr>"

section \<open>Filing requirement (claim C7)\<close>

text \<open>
  C7, as stated, fails: a head-of-household unit with an elderly filer, income above
  6500 and a dependent is returned as a non-filer by the carve-out, which \<open>filst\<close> tests
  before the negative income test. One such unit with a business loss:
\<close>

theorem filst_negative_income_counterexample:
  "bil hoh_loss_unit < 0 \<and> js hoh_loss_unit = 3 \<and> agede hoh_loss_unit > 0 \<and>
   filst_income hoh_loss_unit > 6500 \<and> depne hoh_loss_unit > 0 \<and>
   filst hoh_loss_unit = 0"
  by (simp add: hoh_loss_unit_def blank_unit_def filst_def filst_income_def thresholds)

text \<open>
  C7, amended: a unit whose business, farm or rental income is negative is classified
  as a filer by \<open>filst\<close> unless the carve-out applies (head of household, elderly
  filer, income above 6500, at least one dependent); a unit under the carve-out that
  is not a dependent filer and passes neither the wage test nor the gross income test
  of a head of household is classified as a non-filer, negative income or not.
\<close>

theorem filst_negative_income:
  "((bil r < 0 \<or> fil r < 0 \<or> rents r < 0) \<and>
    \<not> (js r = 3 \<and> agede r > 0 \<and> filst_income r > 6500 \<and> depne r > 0)
      \<longrightarrow> filst r = 1) \<and>
   (js r = 3 \<and> agede r > 0 \<and> filst_income r > 6500 \<and> depne r > 0 \<and>
    \<not> ifdept_flag r \<and> was r < wage3 \<and>
    filst_income r < hoh65 - real (depne r) * depExempt
      \<longrightarrow> filst r = 0)"
  by (auto simp add: filst_def Let_def)

theorem filst_negative_income_witness:
  "(bil single_loss_unit < 0 \<or> fil single_loss_unit < 0 \<or> rents single_loss_unit < 0) \<and>
   \<not> (js single_loss_unit = 3 \<and> agede single_loss_unit > 0 \<and>
      filst_income single_loss_unit > 6500 \<and> depne single_loss_unit > 0) \<and>
   filst single_loss_unit = 1 \<and>
   js hoh_loss_unit = 3 \<and> agede hoh_loss_unit > 0 \<and> filst_income hoh_loss_unit > 6500 \<and>
   depne hoh_loss_unit > 0 \<and> \<not> ifdept_flag hoh_loss_unit \<and> was hoh_loss_unit < wage3 \<and>
   filst_income hoh_loss_unit < hoh65 - real (depne hoh_loss_unit) * depExempt \<and>
   filst hoh_loss_unit = 0"
  using filst_negative_income [of single_loss_unit]
        filst_negative_income [of hoh_loss_unit]
  by (simp add: single_loss_unit_def hoh_loss_unit_def blank_unit_def filst_income_def thresholds)

section \<open>The income test of \<open>ifdept\<close> (claim C6)\<close>

text \<open>The income of the test is the aggregate income plus the interest once more.\<close>

lemma ifdept_income_spec:
  "ifdept_income person = aggregate_income_spec person + int_val person"
  by (simp add: ifdept_income_def aggregate_income_spec_def)

text \<open>
  C6: the income test of \<open>ifdept\<close> adds \<open>int_val\<close> twice, where the claim (and the
  sibling sum in \<open>must_file\<close>) counts each stream once. A person whose only income is
  1300 of interest has an aggregate income of 1300, at most 2500, yet the income of
  the test is 2600: the test fails and, with the support test passed, \<open>ifdept\<close>
  returns False.
\<close>

theorem ifdept_income_test_interest_twice:
  "aggregate_income_spec interest_person = 1300 \<and>
   ifdept_income interest_person = 2600 \<and>
   \<not> ifdept_test4 interest_person wage_unit \<and>
   ifdept_test5 interest_person wage_unit \<and>
   \<not> ifdept interest_person wage_unit"
  by (simp add: interest_person_def wage_unit_def blank_person_def blank_unit_def
      aggregate_income_spec_def ifdept_income_def ifdept_test4_def ifdept_test5_def
      ifdept_def ss_val_y_def relation_def gen_code_def totincx_def)

section \<open>Head of household status (claim C3)\<close>

text \<open>The result of \<open>hhstatus\<close> does not depend on the unit it is called for.\<close>

lemma hhstatus_ignores_parameter:
  "us \<noteq> [] \<Longrightarrow> hhstatus us k = hhstatus us j"
  by (simp add: hhstatus_def)

text \<open>
  C3: \<open>hhstatus\<close> called for the single parent's unit, whose income is the whole
  income of the household, leaves it single: the loop variable of the income loop
  shadows the parameter, and the tests are made on the last unit of the household.
\<close>

theorem hhstatus_checks_last_unit:
  "js parent_unit = 1 \<and>
   totincx parent_unit > 0.99 * (totincx parent_unit + totincx idle_unit) \<and>
   totincx parent_unit + totincx idle_unit > 0 \<and>
   \<not> ifdept_flag parent_unit \<and> depne parent_unit > 0 \<and>
   hhstatus [parent_unit, idle_unit] 0 = [parent_unit, idle_unit]"
  by (simp add: hhstatus_def parent_unit_def idle_unit_def blank_unit_def totincx_def)

section \<open>Lemmas on \<open>convert\<close>\<close>

lemma fold_err_rel:
  assumes step: "\<And>x s s'. f x s = Inr s' \<Longrightarrow> R s s'"
    and refl: "\<And>s. R s s"
    and trans: "\<And>a b c. R a b \<Longrightarrow> R b c \<Longrightarrow> R a c"
  shows "fold_err f xs s = Inr s' \<Longrightarrow> R s s'"
proof (induction xs arbitrary: s)
  case Nil
  then show ?case by (simp add: refl)
next
  case (Cons x xs)
  then obtain s1 where a: "f x s = Inr s1" and b: "fold_err f xs s1 = Inr s'"
    by (auto split: sum.splits)
  from step [OF a] Cons.IH [OF b] show ?case by (rule trans)
qed

lemma totincx_upd:
  "totincx (u\<lparr>ifdept_flag := a1\<rparr>) = totincx u"
  "totincx (u\<lparr>depne := a2\<rparr>) = totincx u"
  "totincx (u\<lparr>dep := a3\<rparr>) = totincx u"
  "totincx (u\<lparr>depage := a4\<rparr>) = totincx u"
  "totincx (u\<lparr>PROB := a5\<rparr>) = totincx u"
  "totincx (u\<lparr>VAL := a6\<rparr>) = totincx u"
  "totincx (u\<lparr>ben_number := a7\<rparr>) = totincx u"
  "totincx (u\<lparr>t_flag := a8\<rparr>) = totincx u"
  "totincx (u\<lparr>tot := a9\<rparr>) = totincx u"
  "totincx (u\<lparr>nu05 := b1\<rparr>) = totincx u"
  "totincx (u\<lparr>nu13 := b2\<rparr>) = totincx u"
  "totincx (u\<lparr>nu18_dep := b3\<rparr>) = totincx u"
  "totincx (u\<lparr>nu18 := b4\<rparr>) = totincx u"
  "totincx (u\<lparr>n1820 := b5\<rparr>) = totincx u"
  "totincx (u\<lparr>n21 := b6\<rparr>) = totincx u"
  "totincx (u\<lparr>elderly_dependent := b7\<rparr>) = totincx u"
  "totincx (u\<lparr>f2441 := b8\<rparr>) = totincx u"
  "totincx (u\<lparr>EIC := b9\<rparr>) = totincx u"
  "totincx (u\<lparr>n24 := b0\<rparr>) = totincx u"
  by (simp_all add: totincx_def)

lemma slot_frame_refl: "slot_frame ix iy s s"
  by (simp add: slot_frame_def)

lemma slot_frame_trans: "slot_frame ix iy a b \<Longrightarrow> slot_frame ix iy b c \<Longrightarrow> slot_frame ix iy a c"
  by (simp add: slot_frame_def)

lemma length_upd [simp]: "length (upd i f s) = length s"
  by (simp add: upd_def)

lemma nth_upd_other: "k \<noteq> i \<Longrightarrow> upd i f s ! k = s ! k"
  by (simp add: upd_def)

lemma nth_upd_same: "i < length s \<Longrightarrow> upd i f s ! i = f (s ! i)"
  by (simp add: upd_def)

lemma map_core_upd:
  assumes "\<And>u. core (f u) = core u"
  shows "map core (upd i f s) = map core s"
proof (cases "i < length s")
  case True
  then show ?thesis
    by (auto simp add: upd_def nth_list_update assms intro!: nth_equalityI)
next
  case False
  then show ?thesis by (simp add: upd_def list_update_beyond)
qed

lemma slot_frame_upd:
  assumes "\<And>u. core (f u) = core u" and "i = ix \<or> i = iy"
  shows "slot_frame ix iy s (upd i f s)"
  using assms(2) by (auto simp add: slot_frame_def map_core_upd [OF assms(1)] nth_upd_other)

lemma convert_dep_step_frame:
  "convert_dep_step ix iy b n s = Inr s' \<Longrightarrow> slot_frame ix iy s s'"
  unfolding convert_dep_step_def Let_def
  by (auto split: option.splits
      intro!: slot_frame_trans [OF slot_frame_upd slot_frame_trans [OF slot_frame_upd slot_frame_upd]]
      simp add: core_def totincx_upd)

lemma convert_ben_step_frame:
  "convert_ben_step ix iy i b s = Inr s' \<Longrightarrow> slot_frame ix iy s s'"
  unfolding convert_ben_step_def Let_def
  by (auto split: option.splits
      intro!: slot_frame_trans [OF slot_frame_upd slot_frame_upd]
      simp add: core_def totincx_upd)

lemma convert_slot_step_frame:
  assumes "convert_slot_step ix iy i s = Inr s'"
  shows "slot_frame ix iy s s'"
proof -
  from assms obtain s1 where
    a: "fold_err (convert_ben_step ix iy i) [SSI, SNAP, VB, MCARE, MCAID, SS, TANF, UI, HOUSING, WIC] s = Inr s1"
    and b: "s' = upd iy (\<lambda>u. u\<lparr>ben_number := ben_number u + 1\<rparr>) s1"
    by (auto simp add: convert_slot_step_def then_err_def split: sum.splits)
  have "slot_frame ix iy s s1"
    using a by (rule fold_err_rel [rotated 3, OF _ convert_ben_step_frame slot_frame_refl slot_frame_trans])
  moreover have "slot_frame ix iy s1 s'"
    unfolding b by (rule slot_frame_upd) (simp_all add: core_def totincx_upd)
  ultimately show ?thesis by (rule slot_frame_trans)
qed


lemma core_eqD:
  assumes "core u = core v"
  shows "nu05 u = nu05 v" "nu13 u = nu13 v" "nu18_dep u = nu18_dep v"
  "nu18 u = nu18 v" "n1820 u = n1820 v" "n21 u = n21 v"
  "elderly_dependent u = elderly_dependent v" "f2441 u = f2441 v"
  "EIC u = EIC v" "n24 u = n24 v" "tot u = tot v"
  "depne u = depne v" "js u = js v" "ifdept_flag u = ifdept_flag v"
  "t_flag u = t_flag v" "totincx u = totincx v"
  "relcode u = relcode v" "ftype u = ftype v"
  using assms by (simp_all add: core_def)

lemma convert_filers_char:
  assumes "ix \<noteq> iy" "ix < length us" "iy < length us"
  shows "length (fst (convert_filers ix iy us)) = length us"
    and "\<And>k. k \<noteq> ix \<Longrightarrow> k \<noteq> iy \<Longrightarrow> fst (convert_filers ix iy us) ! k = us ! k"
    and "core (fst (convert_filers ix iy us) ! ix) = core ((us ! ix)\<lparr>ifdept_flag := True, depne := 0\<rparr>)"
    and "core (fst (convert_filers ix iy us) ! iy) =
         core ((us ! iy)\<lparr>depne := depne (us ! iy) + (depne (us ! ix) + (if js (us ! ix) = 2 then 2 else 1))\<rparr>)"
    and "fst (snd (convert_filers ix iy us)) = depne (us ! ix)"
  using assms
  by (simp_all add: convert_filers_def Let_def upd_def core_def totincx_upd)


lemma core_add_cong:
  assumes "fst (core x) = fst (core x')" "fst (snd (core x)) = fst (snd (core x'))"
    and "core y = core y'"
  shows "core (add_tots x (add_ages x y)) = core (add_tots x' (add_ages x' y'))"
proof -
  have e: "core (add_tots a (add_ages a b)) =
     ((nu05 b + nu05 a, nu13 b + nu13 a, nu18_dep b + nu18_dep a, nu18 b + nu18 a,
       n1820 b + n1820 a, n21 b + n21 a, elderly_dependent b + elderly_dependent a,
       f2441 b + f2441 a, EIC b + EIC a, n24 b + n24 a),
      (\<lambda>k. tot b k + tot a k), depne b, ifdept_flag b, t_flag b, js b, totincx b,
      relcode b, ftype b)" for a b
    by (simp add: core_def add_ages_def add_tots_def totincx_upd)
  have x: "nu05 x = nu05 x'" "nu13 x = nu13 x'" "nu18_dep x = nu18_dep x'"
    "nu18 x = nu18 x'" "n1820 x = n1820 x'" "n21 x = n21 x'"
    "elderly_dependent x = elderly_dependent x'" "f2441 x = f2441 x'"
    "EIC x = EIC x'" "n24 x = n24 x'" "tot x = tot x'"
    using assms(1,2) by (simp_all add: core_def)
  show ?thesis
    unfolding e using x core_eqD [OF assms(3)] by (simp only:)
qed

lemma slot_frame_nth:
  assumes "slot_frame ix iy s s'" "k < length s"
  shows "core (s' ! k) = core (s ! k)"
proof -
  have m: "map core s' = map core s" and l: "length s' = length s"
    using assms(1) by (simp_all add: slot_frame_def)
  have "core (s' ! k) = map core s' ! k" using assms(2) l by simp
  also have "\<dots> = map core s ! k" by (simp only: m)
  also have "\<dots> = core (s ! k)" using assms(2) by simp
  finally show ?thesis .
qed

lemma then_err_Inr:
  "then_err m f = Inr y \<Longrightarrow> \<exists>x. m = Inr x \<and> f x = Inr y"
  by (cases m) (simp_all add: then_err_def)

lemma convert_split:
  assumes "ix < length us" "iy < length us" "convert ix iy us = Inr us'"
  shows "\<exists>s4.
    fold_err (convert_dep_step ix iy (snd (snd (convert_filers ix iy us))))
       [1..<fst (snd (convert_filers ix iy us)) + 1] (fst (convert_filers ix iy us)) = Inr s4 \<and>
    fold_err (convert_slot_step ix iy) [1..<ben_number (convert_sums ix iy s4 ! ix)]
       (convert_sums ix iy s4) = Inr us'"
proof -
  have "convert ix iy us =
     then_err (fold_err (convert_dep_step ix iy (snd (snd (convert_filers ix iy us))))
       [1..<fst (snd (convert_filers ix iy us)) + 1] (fst (convert_filers ix iy us)))
       (\<lambda>s4. fold_err (convert_slot_step ix iy) [1..<ben_number (convert_sums ix iy s4 ! ix)]
          (convert_sums ix iy s4))"
    using assms(1,2) by (simp only: convert_def Let_def not_le [symmetric] de_Morgan_disj if_False simp_thms)
  with assms(3) show ?thesis
    by (auto dest: then_err_Inr)
qed

lemma convert_char:
  assumes ne: "ix \<noteq> iy" and lx: "ix < length us" and ly: "iy < length us"
    and c: "convert ix iy us = Inr us'"
  shows "length us' = length us"
    and "\<And>k. k \<noteq> ix \<Longrightarrow> k \<noteq> iy \<Longrightarrow> us' ! k = us ! k"
    and "core (us' ! ix) = core ((us ! ix)\<lparr>ifdept_flag := True, depne := 0\<rparr>)"
    and "core (us' ! iy) =
         core (add_tots (us ! ix) (add_ages (us ! ix)
           ((us ! iy)\<lparr>depne := depne (us ! iy) + (depne (us ! ix) + (if js (us ! ix) = 2 then 2 else 1))\<rparr>)))"
proof -
  define s3 where "s3 = fst (convert_filers ix iy us)"
  note h = convert_filers_char [OF ne lx ly, folded s3_def]
  from convert_split [OF lx ly c] obtain s4 where
    a4: "fold_err (convert_dep_step ix iy (snd (snd (convert_filers ix iy us))))
       [1..<fst (snd (convert_filers ix iy us)) + 1] s3 = Inr s4"
    and a7: "fold_err (convert_slot_step ix iy) [1..<ben_number (convert_sums ix iy s4 ! ix)]
       (convert_sums ix iy s4) = Inr us'"
    unfolding s3_def by blast
  define s6 where "s6 = convert_sums ix iy s4"
  have f34: "slot_frame ix iy s3 s4"
    using a4 by (rule fold_err_rel [rotated 3, OF _ convert_dep_step_frame slot_frame_refl slot_frame_trans])
  have f67: "slot_frame ix iy s6 us'"
    using a7 unfolding s6_def [symmetric]
    by (rule fold_err_rel [rotated 3, OF _ convert_slot_step_frame slot_frame_refl slot_frame_trans])
  have l4: "length s4 = length us" using f34 h(1) by (simp add: slot_frame_def)
  have l6: "length s6 = length us" by (simp add: s6_def convert_sums_def Let_def l4)
  show "length us' = length us" using f67 l6 by (simp add: slot_frame_def)
  show "us' ! k = us ! k" if "k \<noteq> ix" "k \<noteq> iy" for k
  proof -
    have "us' ! k = s6 ! k" using f67 that by (simp add: slot_frame_def)
    also have "\<dots> = s4 ! k" using that by (simp add: s6_def convert_sums_def Let_def nth_upd_other)
    also have "\<dots> = s3 ! k" using f34 that by (simp add: slot_frame_def)
    also have "\<dots> = us ! k" using that by (rule h(2))
    finally show ?thesis .
  qed
  have x4: "core (s4 ! ix) = core ((us ! ix)\<lparr>ifdept_flag := True, depne := 0\<rparr>)"
    using slot_frame_nth [OF f34, of ix] lx h(1) h(3) by simp
  have s6x: "s6 ! ix = s4 ! ix" using ne by (simp add: s6_def convert_sums_def Let_def nth_upd_other)
  show "core (us' ! ix) = core ((us ! ix)\<lparr>ifdept_flag := True, depne := 0\<rparr>)"
    using slot_frame_nth [OF f67, of ix] lx l6 s6x x4 by simp
  have y4: "core (s4 ! iy) =
      core ((us ! iy)\<lparr>depne := depne (us ! iy) + (depne (us ! ix) + (if js (us ! ix) = 2 then 2 else 1))\<rparr>)"
    using slot_frame_nth [OF f34, of iy] ly h(1) h(4) by simp
  have s6y: "s6 ! iy = add_tots (s4 ! ix) (add_ages (s4 ! ix) (s4 ! iy))"
    using ly l4 ne by (simp add: s6_def convert_sums_def Let_def nth_upd_other nth_upd_same)
  have "core (us' ! iy) = core (s6 ! iy)"
    using slot_frame_nth [OF f67, of iy] ly l6 by simp
  also have "\<dots> = core (add_tots ((us ! ix)\<lparr>ifdept_flag := True, depne := 0\<rparr>)
      (add_ages ((us ! ix)\<lparr>ifdept_flag := True, depne := 0\<rparr>)
        ((us ! iy)\<lparr>depne := depne (us ! iy) + (depne (us ! ix) + (if js (us ! ix) = 2 then 2 else 1))\<rparr>)))"
    unfolding s6y
    by (rule core_add_cong [OF arg_cong [OF x4, of fst] arg_cong [OF x4, of "\<lambda>c. fst (snd c)"] y4])
  also have "\<dots> = core (add_tots (us ! ix) (add_ages (us ! ix)
           ((us ! iy)\<lparr>depne := depne (us ! iy) + (depne (us ! ix) + (if js (us ! ix) = 2 then 2 else 1))\<rparr>)))"
    by (rule core_add_cong) (simp_all add: core_def totincx_upd)
  finally show "core (us' ! iy) =
         core (add_tots (us ! ix) (add_ages (us ! ix)
           ((us ! iy)\<lparr>depne := depne (us ! iy) + (depne (us ! ix) + (if js (us ! ix) = 2 then 2 else 1))\<rparr>)))" .
qed

lemma surviving_sum_nth:
  "surviving_sum f us = (\<Sum>k = 0..<length us. if t_flag (us ! k) then f (us ! k) else 0)"
proof -
  have "surviving_sum f us = sum_list (map (\<lambda>u. if t_flag u then f u else 0) us)"
    by (simp add: surviving_sum_def sum_list_map_filter')
  also have "\<dots> = (\<Sum>k = 0..<length us. if t_flag (us ! k) then f (us ! k) else 0)"
    by (simp add: sum_list_sum_nth)
  finally show ?thesis .
qed

lemma sum_two_out:
  fixes g :: "nat \<Rightarrow> 'a::comm_monoid_add"
  assumes "ix \<noteq> iy" "ix < n" "iy < n"
  shows "sum g {0..<n} = g ix + (g iy + sum g ({0..<n} - {ix} - {iy}))"
proof -
  have "sum g {0..<n} = g ix + sum g ({0..<n} - {ix})"
    using assms by (simp add: sum.remove)
  also have "sum g ({0..<n} - {ix}) = g iy + sum g ({0..<n} - {ix} - {iy})"
    using assms by (simp add: sum.remove)
  finally show ?thesis .
qed

lemma surviving_sum_move:
  fixes f :: "tax_unit \<Rightarrow> 'a::comm_monoid_add"
  assumes ne: "ix \<noteq> iy" and lx: "ix < length us" and ly: "iy < length us"
    and len: "length us' = length us"
    and others: "\<And>k. k \<noteq> ix \<Longrightarrow> k \<noteq> iy \<Longrightarrow> us' ! k = us ! k"
    and tx: "t_flag (us ! ix)" and ty: "t_flag (us ! iy)"
    and tx': "\<not> t_flag (us' ! ix)" and ty': "t_flag (us' ! iy)"
    and fy: "f (us' ! iy) = f (us ! iy) + f (us ! ix) + c"
  shows "surviving_sum f us' = surviving_sum f us + c"
proof -
  let ?g = "\<lambda>k. if t_flag (us ! k) then f (us ! k) else 0"
  let ?g' = "\<lambda>k. if t_flag (us' ! k) then f (us' ! k) else 0"
  let ?R = "{0..<length us} - {ix} - {iy}"
  have r: "sum ?g' ?R = sum ?g ?R"
    by (rule sum.cong) (auto simp add: others)
  have "surviving_sum f us' = ?g' ix + (?g' iy + sum ?g' ?R)"
    unfolding surviving_sum_nth len by (rule sum_two_out [OF ne lx ly])
  also have "\<dots> = (f (us ! iy) + f (us ! ix) + c) + sum ?g ?R"
    using tx' ty' fy r by simp
  also have "\<dots> = (?g ix + (?g iy + sum ?g ?R)) + c"
    using tx ty by (simp add: ac_simps)
  also have "?g ix + (?g iy + sum ?g ?R) = surviving_sum f us"
    unfolding surviving_sum_nth by (rule sum_two_out [OF ne lx ly, symmetric])
  finally show ?thesis .
qed


lemma fold_into_char:
  assumes ne: "ix \<noteq> iy" and lx: "ix < length us" and ly: "iy < length us"
    and c: "fold_into ix iy us = Inr us'"
  shows "length us' = length us"
    and "\<And>k. k \<noteq> ix \<Longrightarrow> k \<noteq> iy \<Longrightarrow> us' ! k = us ! k"
    and "core (us' ! ix) = core ((us ! ix)\<lparr>t_flag := False, ifdept_flag := True, depne := 0\<rparr>)"
    and "core (us' ! iy) =
         core (add_tots (us ! ix) (add_ages (us ! ix)
           ((us ! iy)\<lparr>depne := depne (us ! iy) + (depne (us ! ix) + (if js (us ! ix) = 2 then 2 else 1))\<rparr>)))"
proof -
  define u1 where "u1 = upd ix (\<lambda>u. u\<lparr>t_flag := False\<rparr>) us"
  have l1: "length u1 = length us" by (simp add: u1_def)
  have x1: "u1 ! ix = (us ! ix)\<lparr>t_flag := False\<rparr>" using lx by (simp add: u1_def nth_upd_same)
  have y1: "u1 ! iy = us ! iy" using ne by (simp add: u1_def nth_upd_other)
  have c1: "convert ix iy u1 = Inr us'" using c by (simp add: fold_into_def u1_def)
  note h = convert_char [OF ne _ _ c1, unfolded l1, OF lx ly]
  show "length us' = length us" by (rule h(1))
  show "us' ! k = us ! k" if "k \<noteq> ix" "k \<noteq> iy" for k
    using h(2) [OF that] that by (simp add: u1_def nth_upd_other)
  show "core (us' ! ix) = core ((us ! ix)\<lparr>t_flag := False, ifdept_flag := True, depne := 0\<rparr>)"
    using h(3) by (simp add: x1)
  have "core (us' ! iy) = core (add_tots (u1 ! ix) (add_ages (u1 ! ix)
           ((u1 ! iy)\<lparr>depne := depne (u1 ! iy) + (depne (u1 ! ix) + (if js (u1 ! ix) = 2 then 2 else 1))\<rparr>)))"
    by (rule h(4))
  also have "\<dots> = core (add_tots (us ! ix) (add_ages (us ! ix)
           ((us ! iy)\<lparr>depne := depne (us ! iy) + (depne (us ! ix) + (if js (us ! ix) = 2 then 2 else 1))\<rparr>)))"
    unfolding x1 y1 by (rule core_add_cong) (simp_all add: core_def totincx_upd)
  finally show "core (us' ! iy) =
         core (add_tots (us ! ix) (add_ages (us ! ix)
           ((us ! iy)\<lparr>depne := depne (us ! iy) + (depne (us ! ix) + (if js (us ! ix) = 2 then 2 else 1))\<rparr>)))" .
qed

lemma core_add_fields:
  "core (add_tots a (add_ages a b)) =
     ((nu05 b + nu05 a, nu13 b + nu13 a, nu18_dep b + nu18_dep a, nu18 b + nu18 a,
       n1820 b + n1820 a, n21 b + n21 a, elderly_dependent b + elderly_dependent a,
       f2441 b + f2441 a, EIC b + EIC a, n24 b + n24 a),
      (\<lambda>k. tot b k + tot a k), depne b, ifdept_flag b, t_flag b, js b, totincx b,
      relcode b, ftype b)"
  by (simp add: core_def add_ages_def add_tots_def totincx_upd)

lemma fold_err_rel_set:
  assumes step: "\<And>x s s'. x \<in> set xs \<Longrightarrow> f x s = Inr s' \<Longrightarrow> R s s'"
    and refl: "\<And>s. R s s"
    and trans: "\<And>a b c. R a b \<Longrightarrow> R b c \<Longrightarrow> R a c"
  shows "fold_err f xs s = Inr s' \<Longrightarrow> R s s'"
  using step
proof (induction xs arbitrary: s)
  case Nil
  then show ?case by (simp add: refl)
next
  case (Cons x xs)
  from Cons.prems(1) obtain s1 where a: "f x s = Inr s1" and b: "fold_err f xs s1 = Inr s'"
    by (auto split: sum.splits)
  have "R s s1" by (rule Cons.prems(2) [OF _ a]) simp
  moreover have "R s1 s'" by (rule Cons.IH [OF b]) (rule Cons.prems(2), simp_all)
  ultimately show ?case by (rule trans)
qed

lemma dep_keep_refl: "dep_keep iy m s s"
  by (simp add: dep_keep_def)

lemma dep_keep_trans: "dep_keep iy m a b \<Longrightarrow> dep_keep iy m b c \<Longrightarrow> dep_keep iy m a c"
  by (simp add: dep_keep_def)

lemma convert_dep_step_keep:
  assumes "ix \<noteq> iy" "m < b + nd" "convert_dep_step ix iy b nd s = Inr s'"
  shows "dep_keep iy m s s'"
proof (cases "iy < length s")
  case True
  with assms show ?thesis
    by (auto simp add: convert_dep_step_def Let_def dep_keep_def upd_def split: option.splits)
next
  case False
  with assms show ?thesis
    by (auto simp add: convert_dep_step_def Let_def dep_keep_def upd_def list_update_beyond
        split: option.splits)
qed

lemma convert_slot_step_dep:
  assumes "convert_slot_step ix iy i s = Inr s'"
  shows "map dep s' = map dep s"
proof -
  have u: "map dep (upd k f t) = map dep t" if "\<And>u. dep (f u) = dep u" for k f t
  proof (cases "k < length t")
    case True
    then show ?thesis by (auto simp add: upd_def nth_list_update that intro!: nth_equalityI)
  next
    case False
    then show ?thesis by (simp add: upd_def list_update_beyond)
  qed
  have b: "convert_ben_step ix iy i b t = Inr t' \<Longrightarrow> map dep t' = map dep t" for b t t'
    by (auto simp add: convert_ben_step_def Let_def u split: option.splits)
  from assms obtain s1 where
    a: "fold_err (convert_ben_step ix iy i) [SSI, SNAP, VB, MCARE, MCAID, SS, TANF, UI, HOUSING, WIC] s = Inr s1"
    and c: "s' = upd iy (\<lambda>u. u\<lparr>ben_number := ben_number u + 1\<rparr>) s1"
    by (auto simp add: convert_slot_step_def dest!: then_err_Inr)
  have "map dep s1 = map dep s"
    using a by (rule fold_err_rel [where R = "\<lambda>a b. map dep b = map dep a", rotated 3]) (auto dest: b)
  then show ?thesis by (simp add: c u)
qed

lemma convert_filers_dep:
  assumes "ix \<noteq> iy" "ix < length us" "iy < length us"
  shows "dep (fst (convert_filers ix iy us) ! iy) (depne (us ! iy) + 1) = Some (int ix)"
    and "\<And>n. n \<le> depne (us ! iy) \<Longrightarrow> dep (fst (convert_filers ix iy us) ! iy) n = dep (us ! iy) n"
    and "depne (us ! iy) + 1 \<le> snd (snd (convert_filers ix iy us))"
  using assms by (simp_all add: convert_filers_def Let_def upd_def)


lemma convert_dep_slots:
  assumes ne: "ix \<noteq> iy" and lx: "ix < length us" and ly: "iy < length us"
    and c: "convert ix iy us = Inr us'"
  shows "dep (us' ! iy) (depne (us ! iy) + 1) = Some (int ix)"
    and "\<And>n. n \<le> depne (us ! iy) \<Longrightarrow> dep (us' ! iy) n = dep (us ! iy) n"
proof -
  define s3 where "s3 = fst (convert_filers ix iy us)"
  define b where "b = snd (snd (convert_filers ix iy us))"
  define m where "m = depne (us ! iy) + 1"
  note h = convert_filers_dep [OF ne lx ly, folded s3_def b_def m_def]
  have l3: "length s3 = length us"
    unfolding s3_def by (rule convert_filers_char(1) [OF ne lx ly])
  from convert_split [OF lx ly c] obtain s4 where
    a4: "fold_err (convert_dep_step ix iy b) [1..<fst (snd (convert_filers ix iy us)) + 1] s3 = Inr s4"
    and a7: "fold_err (convert_slot_step ix iy) [1..<ben_number (convert_sums ix iy s4 ! ix)]
       (convert_sums ix iy s4) = Inr us'"
    unfolding s3_def b_def by blast
  have k34: "dep_keep iy m s3 s4"
    using a4
  proof (rule fold_err_rel_set [rotated 3])
    fix nd s s'
    assume "nd \<in> set [1..<fst (snd (convert_filers ix iy us)) + 1]"
      and st: "convert_dep_step ix iy b nd s = Inr s'"
    then have "1 \<le> nd" by auto
    then have "m < b + nd" using h(3) by linarith
    with ne show "dep_keep iy m s s'" using st by (rule convert_dep_step_keep)
  qed (rule dep_keep_refl, rule dep_keep_trans)
  have l4: "length s4 = length us" using k34 l3 by (simp add: dep_keep_def)
  have d46: "dep (convert_sums ix iy s4 ! iy) = dep (s4 ! iy)"
    using ly l4 by (simp add: convert_sums_def Let_def nth_upd_same add_ages_def add_tots_def)
  have "map dep us' = map dep (convert_sums ix iy s4)"
    using a7 by (rule fold_err_rel [where R = "\<lambda>a b. map dep b = map dep a", rotated 3])
      (auto dest: convert_slot_step_dep)
  moreover have "length (convert_sums ix iy s4) = length us"
    by (simp add: convert_sums_def Let_def l4)
  ultimately have d7: "dep (us' ! iy) = dep (convert_sums ix iy s4 ! iy)"
    using ly by (metis length_map nth_map)
  have d: "dep (us' ! iy) n = dep (s3 ! iy) n" if "n \<le> m" for n
    using k34 that by (simp add: d7 d46 dep_keep_def)
  show "dep (us' ! iy) (depne (us ! iy) + 1) = Some (int ix)"
    using d [of m] h(1) by (simp add: m_def)
  show "dep (us' ! iy) n = dep (us ! iy) n" if "n \<le> depne (us ! iy)" for n
    using d [of n] h(2) [OF that] that by (simp add: m_def)
qed

lemma fold_into_dep_slots:
  assumes ne: "ix \<noteq> iy" and lx: "ix < length us" and ly: "iy < length us"
    and c: "fold_into ix iy us = Inr us'"
  shows "dep (us' ! iy) (depne (us ! iy) + 1) = Some (int ix)"
    and "\<And>n. n \<le> depne (us ! iy) \<Longrightarrow> dep (us' ! iy) n = dep (us ! iy) n"
proof -
  define u1 where "u1 = upd ix (\<lambda>u. u\<lparr>t_flag := False\<rparr>) us"
  have l1: "length u1 = length us" by (simp add: u1_def)
  have y1: "u1 ! iy = us ! iy" using ne by (simp add: u1_def nth_upd_other)
  have c1: "convert ix iy u1 = Inr us'" using c by (simp add: fold_into_def u1_def)
  note h = convert_dep_slots [OF ne _ _ c1, unfolded l1 y1, OF lx ly]
  show "dep (us' ! iy) (depne (us ! iy) + 1) = Some (int ix)" by (rule h(1))
  show "dep (us' ! iy) n = dep (us ! iy) n" if "n \<le> depne (us ! iy)" for n
    using that by (rule h(2))
qed

section \<open>Merge conservation (claim C5)\<close>

lemmas convert_eval =
  fold_into_def convert_def convert_filers_def convert_dep_step_def convert_sums_def
  convert_slot_step_def convert_ben_step_def upd_def add_ages_def add_tots_def
  then_err_def Let_def

text \<open>
  C5, as stated, fails: \<open>convert\<close> adds the counters and totals of the source to the
  target and leaves them in the source, and it makes the source's filer a dependent of
  the target. Folding the sub-family unit into the wage earner's unit raises the sum
  of the dependent counts over the two units from 1 to 2, the sum of \<open>n21\<close> from 2 to 3
  and the sum of the SNAP totals from 1200 to 2400.
\<close>

theorem merge_conservation_counterexample:
  "(case fold_into 1 0 [wage_unit, subfamily_unit] of
      Inl e \<Rightarrow> False
    | Inr us' \<Rightarrow>
        sum_list (map depne [wage_unit, subfamily_unit]) = 1 \<and>
        sum_list (map depne us') = 2 \<and>
        sum_list (map n21 [wage_unit, subfamily_unit]) = 2 \<and>
        sum_list (map n21 us') = 3 \<and>
        sum_list (map (\<lambda>u. tot u SNAP) [wage_unit, subfamily_unit]) = 1200 \<and>
        sum_list (map (\<lambda>u. tot u SNAP) us') = 2400)"
  by (simp add: convert_eval wage_unit_def subfamily_unit_def blank_unit_def upt_rec)

text \<open>
  C5, amended: when a surviving unit \<open>ix\<close> is folded into another surviving unit
  \<open>iy\<close> (the two statements of \<open>search\<close>: \<open>t_flag\<close> cleared, then \<open>convert\<close>), the
  source no longer survives, and over the surviving units of the household the sum of
  each age counter and of each benefit total is the same before and after; the sum of
  the dependent counts over the surviving units grows by 1 (by 2 when the source is a
  joint unit), since the source's filers become dependents, and the source's own
  dependent count becomes 0.
\<close>

theorem merge_conservation:
  assumes ne: "ix \<noteq> iy" and lx: "ix < length us" and ly: "iy < length us"
    and tx: "t_flag (us ! ix)" and ty: "t_flag (us ! iy)"
    and c: "fold_into ix iy us = Inr us'"
  shows "\<not> t_flag (us' ! ix) \<and>
    surviving_sum nu05 us' = surviving_sum nu05 us \<and>
    surviving_sum nu13 us' = surviving_sum nu13 us \<and>
    surviving_sum nu18_dep us' = surviving_sum nu18_dep us \<and>
    surviving_sum nu18 us' = surviving_sum nu18 us \<and>
    surviving_sum n1820 us' = surviving_sum n1820 us \<and>
    surviving_sum n21 us' = surviving_sum n21 us \<and>
    surviving_sum elderly_dependent us' = surviving_sum elderly_dependent us \<and>
    surviving_sum f2441 us' = surviving_sum f2441 us \<and>
    surviving_sum EIC us' = surviving_sum EIC us \<and>
    surviving_sum n24 us' = surviving_sum n24 us \<and>
    (\<forall>b. surviving_sum (\<lambda>u. tot u b) us' = surviving_sum (\<lambda>u. tot u b) us) \<and>
    surviving_sum depne us' =
      surviving_sum depne us + (if js (us ! ix) = 2 then 2 else 1) \<and>
    depne (us' ! ix) = 0"
proof -
  note h = fold_into_char [OF ne lx ly c]
  have x: "core (us' ! ix) =
      core ((us ! ix)\<lparr>t_flag := False, ifdept_flag := True, depne := 0\<rparr>)"
    by (rule h(3))
  have y: "core (us' ! iy) = 
     ((nu05 (us ! iy) + nu05 (us ! ix), nu13 (us ! iy) + nu13 (us ! ix),
       nu18_dep (us ! iy) + nu18_dep (us ! ix), nu18 (us ! iy) + nu18 (us ! ix),
       n1820 (us ! iy) + n1820 (us ! ix), n21 (us ! iy) + n21 (us ! ix),
       elderly_dependent (us ! iy) + elderly_dependent (us ! ix),
       f2441 (us ! iy) + f2441 (us ! ix), EIC (us ! iy) + EIC (us ! ix),
       n24 (us ! iy) + n24 (us ! ix)),
      (\<lambda>k. tot (us ! iy) k + tot (us ! ix) k),
      depne (us ! iy) + (depne (us ! ix) + (if js (us ! ix) = 2 then 2 else 1)),
      ifdept_flag (us ! iy), t_flag (us ! iy), js (us ! iy), totincx (us ! iy),
      relcode (us ! iy), ftype (us ! iy))"
    unfolding h(4) core_add_fields by (simp add: totincx_upd)
  have tx': "\<not> t_flag (us' ! ix)" and dx: "depne (us' ! ix) = 0"
    using x by (simp_all add: core_def)
  have ty': "t_flag (us' ! iy)" using y ty by (simp add: core_def)
  note yf = y [unfolded core_def prod.inject]
  note mv = surviving_sum_move [OF ne lx ly h(1) h(2) tx ty tx' ty']
  have "surviving_sum nu05 us' = surviving_sum nu05 us + 0"
    by (rule mv) (simp_all add: yf)
  moreover have "surviving_sum nu13 us' = surviving_sum nu13 us + 0"
    by (rule mv) (simp_all add: yf)
  moreover have "surviving_sum nu18_dep us' = surviving_sum nu18_dep us + 0"
    by (rule mv) (simp_all add: yf)
  moreover have "surviving_sum nu18 us' = surviving_sum nu18 us + 0"
    by (rule mv) (simp_all add: yf)
  moreover have "surviving_sum n1820 us' = surviving_sum n1820 us + 0"
    by (rule mv) (simp_all add: yf)
  moreover have "surviving_sum n21 us' = surviving_sum n21 us + 0"
    by (rule mv) (simp_all add: yf)
  moreover have "surviving_sum elderly_dependent us' = surviving_sum elderly_dependent us + 0"
    by (rule mv) (simp_all add: yf)
  moreover have "surviving_sum f2441 us' = surviving_sum f2441 us + 0"
    by (rule mv) (simp_all add: yf)
  moreover have "surviving_sum EIC us' = surviving_sum EIC us + 0"
    by (rule mv) (simp_all add: yf)
  moreover have "surviving_sum n24 us' = surviving_sum n24 us + 0"
    by (rule mv) (simp_all add: yf)
  moreover have "surviving_sum (\<lambda>u. tot u b) us' = surviving_sum (\<lambda>u. tot u b) us + 0" for b
    by (rule mv) (simp_all add: yf)
  moreover have "surviving_sum depne us' =
      surviving_sum depne us + (if js (us ! ix) = 2 then 2 else 1)"
    by (rule mv) (simp_all add: yf)
  ultimately show ?thesis using tx' dx by simp
qed

theorem merge_conservation_witness:
  "(1::nat) \<noteq> 0 \<and> 1 < length [wage_unit, subfamily_unit] \<and>
   0 < length [wage_unit, subfamily_unit] \<and>
   t_flag ([wage_unit, subfamily_unit] ! 1) \<and> t_flag ([wage_unit, subfamily_unit] ! 0) \<and>
   (\<exists>us'. fold_into 1 0 [wage_unit, subfamily_unit] = Inr us' \<and>
      \<not> t_flag (us' ! 1) \<and>
      surviving_sum n21 us' = surviving_sum n21 [wage_unit, subfamily_unit] \<and>
      surviving_sum depne us' = surviving_sum depne [wage_unit, subfamily_unit] + 1)"
proof -
  have "\<exists>us'. fold_into 1 0 [wage_unit, subfamily_unit] = Inr us'"
    by (simp add: convert_eval wage_unit_def subfamily_unit_def blank_unit_def upt_rec)
  then obtain us' where e: "fold_into 1 0 [wage_unit, subfamily_unit] = Inr us'" ..
  have t: "t_flag ([wage_unit, subfamily_unit] ! 1)" "t_flag ([wage_unit, subfamily_unit] ! 0)"
    and j: "js ([wage_unit, subfamily_unit] ! 1) \<noteq> 2"
    by (simp_all add: wage_unit_def subfamily_unit_def blank_unit_def)
  from merge_conservation [OF _ _ _ t e] j
  have "\<not> t_flag (us' ! 1) \<and>
      surviving_sum n21 us' = surviving_sum n21 [wage_unit, subfamily_unit] \<and>
      surviving_sum depne us' = surviving_sum depne [wage_unit, subfamily_unit] + 1"
    by simp
  with e t show ?thesis by auto
qed

section \<open>The double conversion in \<open>search\<close> (claim C10)\<close>

text \<open>
  C10, as stated, fails in one point: the first conversion sets the dependent count of
  the source to 0, so the second one adds only the source's filer again. The
  sub-family unit has one dependent; after the iteration of \<open>search\<close> the top unit has
  3 dependents, neither twice the source's count nor twice its count of persons, while
  \<open>n21\<close> and the SNAP total of the source are added twice.
\<close>

theorem search_step_double_conversion_counterexample:
  "(case search_step 0 50000 1 [wage_unit, subfamily_unit] of
      Inl e \<Rightarrow> False
    | Inr us' \<Rightarrow>
        depne wage_unit = 0 \<and> depne subfamily_unit = 1 \<and> depne (us' ! 0) = 3 \<and>
        depne (us' ! 0) \<noteq> depne wage_unit + 2 * depne subfamily_unit \<and>
        depne (us' ! 0) \<noteq> depne wage_unit + 2 * (depne subfamily_unit + 1) \<and>
        n21 (us' ! 0) = n21 wage_unit + 2 * n21 subfamily_unit \<and>
        tot (us' ! 0) SNAP = tot wage_unit SNAP + 2 * tot subfamily_unit SNAP)"
  by (simp add: search_step_def totincx_def convert_eval wage_unit_def subfamily_unit_def
      blank_unit_def upt_rec)

text \<open>Under those tests the iteration is two conversions in a row.\<close>

lemma search_step_twice:
  assumes lx: "ix < length us"
    and g: "ix \<noteq> idxhigh" "\<not> ifdept_flag (us ! ix)" "highest > 0" "js (us ! ix) \<noteq> 2"
    and f: "ftype (us ! ix) = 1 \<or> ftype (us ! ix) = 3 \<or> ftype (us ! ix) = 5"
    and i: "totincx (us ! ix) \<le> 3000" and r: "relcode (us ! ix) = 11"
  shows "search_step idxhigh highest ix us =
         then_err (fold_into ix idxhigh us) (fold_into ix idxhigh)"
proof (cases "totincx (us ! ix) \<le> 0")
  case True
  with assms show ?thesis
    by (simp add: search_step_def Let_def then_err_def split: sum.splits)
next
  case False
  with assms show ?thesis
    by (simp add: search_step_def Let_def then_err_def split: sum.splits)
qed

text \<open>
  C10, amended: a unit that passes the general tests of \<open>search\<close> (not the top unit, not
  a dependent, top income positive, not joint), whose family type is 1, 3 or 5, whose
  total income is at most 3000 and whose relationship code is 11 is converted into
  the top unit twice. Its age counters and benefit totals are added to the top unit
  twice; the top unit's dependent count grows by the source's dependent count plus 2;
  and the top unit gets two dependent slots that hold the source unit's index: the
  first free slot, and the first free slot after the first conversion.
\<close>

theorem search_step_double_conversion:
  assumes lx: "ix < length us" and ly: "idxhigh < length us"
    and g: "ix \<noteq> idxhigh" "\<not> ifdept_flag (us ! ix)" "highest > 0" "js (us ! ix) \<noteq> 2"
    and f: "ftype (us ! ix) = 1 \<or> ftype (us ! ix) = 3 \<or> ftype (us ! ix) = 5"
    and i: "totincx (us ! ix) \<le> 3000" and r: "relcode (us ! ix) = 11"
  shows "search_step idxhigh highest ix us =
           then_err (fold_into ix idxhigh us) (fold_into ix idxhigh) \<and>
         (\<forall>us'. search_step idxhigh highest ix us = Inr us' \<longrightarrow>
            \<not> t_flag (us' ! ix) \<and>
            nu05 (us' ! idxhigh) = nu05 (us ! idxhigh) + 2 * nu05 (us ! ix) \<and>
            nu13 (us' ! idxhigh) = nu13 (us ! idxhigh) + 2 * nu13 (us ! ix) \<and>
            nu18_dep (us' ! idxhigh) = nu18_dep (us ! idxhigh) + 2 * nu18_dep (us ! ix) \<and>
            nu18 (us' ! idxhigh) = nu18 (us ! idxhigh) + 2 * nu18 (us ! ix) \<and>
            n1820 (us' ! idxhigh) = n1820 (us ! idxhigh) + 2 * n1820 (us ! ix) \<and>
            n21 (us' ! idxhigh) = n21 (us ! idxhigh) + 2 * n21 (us ! ix) \<and>
            elderly_dependent (us' ! idxhigh) =
              elderly_dependent (us ! idxhigh) + 2 * elderly_dependent (us ! ix) \<and>
            f2441 (us' ! idxhigh) = f2441 (us ! idxhigh) + 2 * f2441 (us ! ix) \<and>
            EIC (us' ! idxhigh) = EIC (us ! idxhigh) + 2 * EIC (us ! ix) \<and>
            n24 (us' ! idxhigh) = n24 (us ! idxhigh) + 2 * n24 (us ! ix) \<and>
            (\<forall>b. tot (us' ! idxhigh) b = tot (us ! idxhigh) b + 2 * tot (us ! ix) b) \<and>
            depne (us' ! idxhigh) = depne (us ! idxhigh) + depne (us ! ix) + 2 \<and>
            dep (us' ! idxhigh) (depne (us ! idxhigh) + 1) = Some (int ix) \<and>
            dep (us' ! idxhigh) (depne (us ! idxhigh) + depne (us ! ix) + 2) = Some (int ix))"
proof (intro conjI allI impI)
  show tw: "search_step idxhigh highest ix us =
      then_err (fold_into ix idxhigh us) (fold_into ix idxhigh)"
    by (rule search_step_twice [OF lx g f i r])
  fix us'
  assume "search_step idxhigh highest ix us = Inr us'"
  with tw have "then_err (fold_into ix idxhigh us) (fold_into ix idxhigh) = Inr us'"
    by simp
  from then_err_Inr [OF this] obtain us1 where c1: "fold_into ix idxhigh us = Inr us1"
    and c2: "fold_into ix idxhigh us1 = Inr us'"
    by blast
  note h1 = fold_into_char [OF g(1) lx ly c1]
  have lx1: "ix < length us1" and ly1: "idxhigh < length us1"
    using lx ly h1(1) by simp_all
  note h2 = fold_into_char [OF g(1) lx1 ly1 c2]
  note x1 = h1(3) [unfolded core_def prod.inject, simplified]
  note y1 = h1(4) [unfolded core_add_fields, unfolded core_def prod.inject, simplified]
  note x2 = h2(3) [unfolded core_def prod.inject, simplified]
  note y2 = h2(4) [unfolded core_add_fields, unfolded core_def prod.inject, simplified]
  note d1 = fold_into_dep_slots [OF g(1) lx ly c1]
  note d2 = fold_into_dep_slots [OF g(1) lx1 ly1 c2]
  have dn1: "depne (us1 ! idxhigh) = depne (us ! idxhigh) + depne (us ! ix) + 1"
    using y1 g(4) by simp
  show "\<not> t_flag (us' ! ix)" using x2 by simp
  show "nu05 (us' ! idxhigh) = nu05 (us ! idxhigh) + 2 * nu05 (us ! ix)"
    using x1 y1 y2 by simp
  show "nu13 (us' ! idxhigh) = nu13 (us ! idxhigh) + 2 * nu13 (us ! ix)"
    using x1 y1 y2 by simp
  show "nu18_dep (us' ! idxhigh) = nu18_dep (us ! idxhigh) + 2 * nu18_dep (us ! ix)"
    using x1 y1 y2 by simp
  show "nu18 (us' ! idxhigh) = nu18 (us ! idxhigh) + 2 * nu18 (us ! ix)"
    using x1 y1 y2 by simp
  show "n1820 (us' ! idxhigh) = n1820 (us ! idxhigh) + 2 * n1820 (us ! ix)"
    using x1 y1 y2 by simp
  show "n21 (us' ! idxhigh) = n21 (us ! idxhigh) + 2 * n21 (us ! ix)"
    using x1 y1 y2 by simp
  show "elderly_dependent (us' ! idxhigh) =
      elderly_dependent (us ! idxhigh) + 2 * elderly_dependent (us ! ix)"
    using x1 y1 y2 by simp
  show "f2441 (us' ! idxhigh) = f2441 (us ! idxhigh) + 2 * f2441 (us ! ix)"
    using x1 y1 y2 by simp
  show "EIC (us' ! idxhigh) = EIC (us ! idxhigh) + 2 * EIC (us ! ix)"
    using x1 y1 y2 by simp
  show "n24 (us' ! idxhigh) = n24 (us ! idxhigh) + 2 * n24 (us ! ix)"
    using x1 y1 y2 by simp
  show "tot (us' ! idxhigh) b = tot (us ! idxhigh) b + 2 * tot (us ! ix) b" for b
    using x1 y1 y2 by simp
  show "depne (us' ! idxhigh) = depne (us ! idxhigh) + depne (us ! ix) + 2"
    using x1 y1 y2 g(4) by simp
  show "dep (us' ! idxhigh) (depne (us ! idxhigh) + 1) = Some (int ix)"
    using d2(2) [of "depne (us ! idxhigh) + 1"] d1(1) dn1 by simp
  show "dep (us' ! idxhigh) (depne (us ! idxhigh) + depne (us ! ix) + 2) = Some (int ix)"
    using d2(1) dn1 by simp
qed

theorem search_step_double_conversion_witness:
  "1 < length [wage_unit, subfamily_unit] \<and> 0 < length [wage_unit, subfamily_unit] \<and>
   (1::nat) \<noteq> 0 \<and> \<not> ifdept_flag ([wage_unit, subfamily_unit] ! 1) \<and> (50000::real) > 0 \<and>
   js ([wage_unit, subfamily_unit] ! 1) \<noteq> 2 \<and>
   ftype ([wage_unit, subfamily_unit] ! 1) = 1 \<and>
   totincx ([wage_unit, subfamily_unit] ! 1) \<le> 3000 \<and>
   relcode ([wage_unit, subfamily_unit] ! 1) = 11 \<and>
   (\<exists>us'. search_step 0 50000 1 [wage_unit, subfamily_unit] = Inr us' \<and>
      depne (us' ! 0) = 3 \<and> n21 (us' ! 0) = 3 \<and>
      dep (us' ! 0) 1 = Some 1 \<and> dep (us' ! 0) 3 = Some 1)"
proof -
  let ?us = "[wage_unit, subfamily_unit]"
  have h: "1 < length ?us" "0 < length ?us" "(1::nat) \<noteq> 0" "\<not> ifdept_flag (?us ! 1)"
    "(50000::real) > 0" "js (?us ! 1) \<noteq> 2"
    "ftype (?us ! 1) = 1 \<or> ftype (?us ! 1) = 3 \<or> ftype (?us ! 1) = 5"
    "totincx (?us ! 1) \<le> 3000" "relcode (?us ! 1) = 11"
    by (simp_all add: wage_unit_def subfamily_unit_def blank_unit_def totincx_def)
  have v: "depne (?us ! 0) = 0" "depne (?us ! 1) = 1" "n21 (?us ! 0) = 1" "n21 (?us ! 1) = 1"
    "ftype (?us ! 1) = 1"
    by (simp_all add: wage_unit_def subfamily_unit_def blank_unit_def)
  have "\<exists>us'. search_step 0 50000 1 ?us = Inr us'"
    by (simp add: search_step_def totincx_def convert_eval wage_unit_def subfamily_unit_def
        blank_unit_def upt_rec)
  then obtain us' where e: "search_step 0 50000 1 ?us = Inr us'" ..
  from search_step_double_conversion [OF h] e
  have "depne (us' ! 0) = depne (?us ! 0) + depne (?us ! 1) + 2"
    "n21 (us' ! 0) = n21 (?us ! 0) + 2 * n21 (?us ! 1)"
    "dep (us' ! 0) (depne (?us ! 0) + 1) = Some (int 1)"
    "dep (us' ! 0) (depne (?us ! 0) + depne (?us ! 1) + 2) = Some (int 1)"
    by blast+
  then have "depne (us' ! 0) = 3 \<and> n21 (us' ! 0) = 3 \<and>
      dep (us' ! 0) 1 = Some 1 \<and> dep (us' ! 0) 3 = Some 1"
    unfolding v by (simp add: eval_nat_numeral)
  with e h(1-6) h(8,9) v(5) show ?thesis by blast
qed

section \<open>The person count and the reset of the counters (claims C1, C8)\<close>

lemmas create_eval =
  create_def create_head_def find_spouse_def fold_spouse_def add_benefit_def
  add_benefit_step_def dep_step_def addept_def ifdept_def ifdept_test4_def
  ifdept_test5_def ifdept_income_def relation_def gen_code_def totincx_def check_age_def
  then_err_def ss_val_y_def blank_person_def Let_def

lemmas driver_eval =
  computation_household_def build_units_def family_step_def create_append_def
  must_file_def search_def emit_units_def output_rec_def output_reset_def
  output_count_step_def output_age_step_def output_zdepin_step_def hhstatus_def
  py_nth_def check_age_num_def filst_def filst_income_def thresholds repeated.defs
  outrec.defs counters.defs

text \<open>
  The person count that \<open>output\<close> returns, in general: on the reset path one filer,
  or two for a joint unit, plus the dependents; otherwise \<open>txpye\<close> plus the dependents,
  with \<open>txpye\<close> 2 for \<open>js = 1\<close> and 1 for every other status.
\<close>

lemma xxtot_check_age: "xxtot (check_age r a d) = xxtot r"
  by (simp add: check_age_def Let_def)

lemma xxtot_output_reset:
  "xxtot (output_reset r) = (if js r = 2 then 2 else 1)"
  by (simp add: output_reset_def Let_def check_age_num_def check_age_def split: pynum.splits)

lemma xxtot_count_loop:
  "fold_err (output_count_step unit house eflag) ks r = Inr r' \<Longrightarrow>
   xxtot r' = xxtot r + (if eflag then length ks else 0)"
proof (induction ks arbitrary: r)
  case Nil
  then show ?case by simp
next
  case (Cons k ks)
  from Cons.prems obtain r1 where a: "output_count_step unit house eflag k r = Inr r1"
    and b: "fold_err (output_count_step unit house eflag) ks r1 = Inr r'"
    by (auto split: sum.splits)
  from a have "xxtot r1 = xxtot r + (if eflag then 1 else 0)"
    by (auto simp add: output_count_step_def xxtot_check_age split: option.splits sum.splits)
  with Cons.IH [OF b] show ?case by simp
qed

lemma output_xxtot_value:
  assumes "output_rec unit house = Inr r"
  shows "xxtot r =
     (if output_eflag unit then (if js unit = 2 then 2 else 1) + depne unit
      else (if js unit = 1 then 2 else 1) + depne unit)"
proof -
  define record0 :: outrec where "record0 = repeated.extend (repeated.truncate unit)
      (outrec.fields ((if js unit = 1 then 2 else 1) + depne unit) 0 0 0 0 0 0)"
  have f0: "xxtot record0 = (if js unit = 1 then 2 else 1) + depne unit"
    "js record0 = js unit" "nu18 record0 = nu18 unit" "n1820 record0 = n1820 unit"
    "n21 record0 = n21 unit" "n24 record0 = n24 unit"
    by (simp_all add: record0_def repeated.defs outrec.defs counters.defs)
  define eflag where "eflag = (if xxtot record0 \<noteq> nu18 record0 + n1820 record0 + n21 record0
      then True else n24 record0 > nu18 record0)"
  have ef: "eflag = output_eflag unit"
    unfolding eflag_def output_eflag_def f0 by auto
  define record1 where "record1 = (if eflag then output_reset record0 else record0)"
  have x1: "xxtot record1 = (if eflag then (if js unit = 2 then 2 else 1)
      else (if js unit = 1 then 2 else 1) + depne unit)"
    by (simp add: record1_def xxtot_output_reset f0)
  from assms obtain record2 oy z where
    l: "fold_err (output_count_step unit house eflag) [1..<depne unit + 1] record1 = Inr record2"
    and r: "r = record2\<lparr>oldest := fst oy, youngest := snd oy, zdepin := z,
                       income := totincx unit, filst_out := filst unit\<rparr>"
    unfolding output_rec_def Let_def record0_def [symmetric] eflag_def [symmetric]
      record1_def [symmetric]
    by (auto dest!: then_err_Inr)
  from xxtot_count_loop [OF l] have "xxtot record2 = xxtot record1 + (if eflag then depne unit else 0)"
    by simp
  then show ?thesis using r x1 ef by auto
qed

text \<open>
  C1: for a couple with a child in its first year the driver emits one joint unit with
  one dependent, three persons, and \<open>xxtot = 2\<close>. \<open>output\<close> sets \<open>txpye\<close> to 2 for
  \<open>js = 1\<close> and to 1 otherwise, the wrong way round: a joint unit starts with
  \<open>xxtot = 1 + depne\<close>, here 2, which equals the sum of the age counters (the child of
  age 0 is in none), so the recount that would give 3 is not made.
\<close>

theorem output_xxtot_joint_infant:
  "(case computation_household [husband, wife, baby] of
      Inl e \<Rightarrow> False
    | Inr rs \<Rightarrow> length rs = 1 \<and> js (rs ! 0) = 2 \<and> depne (rs ! 0) = 1 \<and>
                 xxtot (rs ! 0) = 2)"
  by (simp add: create_eval driver_eval husband_def wife_def baby_def upt_rec)

text \<open>
  C8: for a couple with the husband's mother of 70 as dependent, \<open>output\<close> finds
  \<open>xxtot = 2\<close> against three counted persons and takes the reset path. The statement
  meant to reset \<open>elderly_dependent\<close> is \<open>record['elderly_dependent'] - 0.\<close>, which
  assigns nothing: the recount adds the mother to the old value and gives 2, where the
  recomputation from the three ages gives 1.
\<close>

theorem output_reset_keeps_elderly_dependent:
  "(case computation_household [husband, wife, grandma] of
      Inl e \<Rightarrow> False
    | Inr rs \<Rightarrow> length rs = 1 \<and> js (rs ! 0) = 2 \<and> depne (rs ! 0) = 1 \<and>
                 xxtot (rs ! 0) = 3 \<and> n21 (rs ! 0) = 3 \<and>
                 elderly_dependent (rs ! 0) = 2) \<and>
   elderly_dependent (recount_spec 30 True (Num 30) [70]) = 1 \<and>
   n21 (recount_spec 30 True (Num 30) [70]) = 3"
  by (simp add: create_eval driver_eval husband_def wife_def grandma_def upt_rec
      recount_spec_def)

section \<open>The driver and \<open>hhstatus\<close>\<close>

text \<open>
  The driver builds the iterator \<open>map(self.hhstatus, self.house_units)\<close> and drops it, so
  no unit is reclassified on the way to the output: the single parent with all the
  income of the household and one dependent, whom \<open>hhstatus\<close> would make a head of
  household, is emitted as single.
\<close>

lemma computation_household_skips_hhstatus:
  "(case build_units [lone_parent, child10] of
      Inl e \<Rightarrow> False
    | Inr (n, us, h) \<Rightarrow> length us = 1 \<and> js (us ! 0) = 1 \<and> depne (us ! 0) = 1 \<and>
        js (hhstatus us 0 ! 0) = 3) \<and>
   (case computation_household [lone_parent, child10] of
      Inl e \<Rightarrow> False
    | Inr rs \<Rightarrow> length rs = 1 \<and> js (rs ! 0) = 1 \<and> depne (rs ! 0) = 1)"
  by (simp add: create_eval driver_eval lone_parent_def child10_def upt_rec)

section \<open>A spouse pointer without mutual match (claim C2)\<close>

lemma first_pos_None: "(first_pos P xs = None) = (\<forall>x\<in>set xs. \<not> P x)"
  by (induction xs) (auto split: option.splits)

lemma create_raises_without_mutual_spouse:
  assumes "a_maritl (house ! r) = 1 \<or> a_maritl (house ! r) = 2 \<or> a_maritl (house ! r) = 3"
    and "a_spouse (house ! r) \<noteq> 0"
    and "\<forall>p\<in>set house. \<not> (a_lineno p = a_spouse (house ! r) \<and> a_spouse p = a_lineno (house ! r))"
  shows "create r house = Inl UnboundLocalError"
proof -
  have "find_spouse (house ! r) house = None"
    using assms(3) by (simp add: find_spouse_def first_pos_None)
  moreover have "sp_ptr (create_head (house ! r)) \<noteq> 0" "ms_type (create_head (house ! r)) = 2"
    using assms(1,2) by (auto simp add: create_head_def check_age_def Let_def)
  ultimately show ?thesis
    by (simp add: create_def Let_def then_err_def)
qed

text \<open>
  C2: the husband is married and points to line 2, whose member does not point back.
  \<open>create\<close> finds no spouse, leaves the variable \<open>spouse\<close> unbound and reads it at
  \<open>unit['ages'] = spouse['a_age']\<close>: it raises \<open>UnboundLocalError\<close>, and so does the
  driver for this household. No unit is constructed.
\<close>

theorem create_one_sided_spouse_pointer:
  "a_maritl husband = 1 \<and> a_spouse husband = 2 \<and> a_lineno stray_wife = 2 \<and>
   a_spouse stray_wife = 0 \<and>
   create 0 [husband, stray_wife] = Inl UnboundLocalError \<and>
   computation_household [husband, stray_wife] = Inl UnboundLocalError"
  by (simp add: create_eval driver_eval husband_def wife_def stray_wife_def upt_rec)

section \<open>Group quarters households (claim C9)\<close>


lemma uident_check_age: "uident (check_age u a d) = uident u"
  by (simp add: uident_def check_age_def Let_def)

















section \<open>The fold target and the fold conditions of \<open>search\<close> (claim C4)\<close>

lemma index_of_nth:
  "x \<in> set xs \<Longrightarrow> index_of xs x < length xs \<and> xs ! index_of xs x = x"
  by (induction xs) auto

lemma index_of_le: "j < length xs \<Longrightarrow> index_of xs (xs ! j) \<le> j"
proof (induction xs arbitrary: j)
  case Nil
  then show ?case by simp
next
  case (Cons y ys)
  then show ?case by (cases j) auto
qed

lemma index_of_distinct: "distinct xs \<Longrightarrow> j < length xs \<Longrightarrow> index_of xs (xs ! j) = j"
proof (induction xs arbitrary: j)
  case Nil
  then show ?case by simp
next
  case (Cons y ys)
  then show ?case by (cases j) auto
qed

lemma highest_prefix:
  assumes fl: "\<forall>u\<in>set us. - (99 * 10 ^ 31) \<le> totincx u"
  shows "0 < m \<Longrightarrow> m \<le> length us \<Longrightarrow>
         highest_inv us m (fold (highest_step us) (take m us) (- (99 * 10 ^ 31), 0))"
proof (induction m)
  case 0
  then show ?case by simp
next
  case (Suc m)
  then have lt: "m < length us" by simp
  let ?acc = "fold (highest_step us) (take m us) (- (99 * 10 ^ 31), 0)"
  have st: "fold (highest_step us) (take (Suc m) us) (- (99 * 10 ^ 31), 0) =
      highest_step us (us ! m) ?acc"
    using lt by (simp add: take_Suc_conv_app_nth)
  show ?case
  proof (cases "m = 0")
    case True
    have "- (99 * 10 ^ 31) \<le> totincx (us ! 0)" using fl lt True by simp
    then show ?thesis
      unfolding st using True by (simp add: highest_step_def highest_inv_def)
  next
    case False
    then have inv: "highest_inv us m ?acc" using Suc.IH lt by simp
    then obtain j where j: "j < m" "fst ?acc = totincx (us ! j)"
      "snd ?acc = index_of us (us ! j)" "\<forall>k<m. totincx (us ! k) \<le> fst ?acc"
      "\<forall>k<m. j < k \<longrightarrow> totincx (us ! k) < fst ?acc"
      unfolding highest_inv_def by blast
    show ?thesis
    proof (cases "totincx (us ! m) \<ge> fst ?acc")
      case True
      have "\<forall>k<Suc m. totincx (us ! k) \<le> totincx (us ! m)"
        using j(4) True by (auto simp add: less_Suc_eq)
      then show ?thesis
        unfolding st highest_inv_def using True
        by (auto simp add: highest_step_def intro!: exI [of _ m])
    next
      case False
      have "\<forall>k<Suc m. totincx (us ! k) \<le> fst ?acc"
        using j(4) False by (auto simp add: less_Suc_eq)
      moreover have "\<forall>k<Suc m. j < k \<longrightarrow> totincx (us ! k) < fst ?acc"
        using j(5) False by (auto simp add: less_Suc_eq)
      ultimately show ?thesis
        unfolding st highest_inv_def using False j(1,2,3)
        by (auto simp add: highest_step_def intro!: exI [of _ j])
    qed
  qed
qed

lemma find_highest_inv:
  assumes "us \<noteq> []" and "\<forall>u\<in>set us. - (99 * 10 ^ 31) \<le> totincx u"
  shows "highest_inv us (length us) (find_highest us)"
proof -
  have "find_highest us = fold (highest_step us) (take (length us) us) (- (99 * 10 ^ 31), 0)"
    by (simp add: find_highest_def highest_step_def [abs_def])
  then show ?thesis
    using highest_prefix [OF assms(2), of "length us"] assms(1) by simp
qed


lemma flags_frame_refl: "flags_frame ix s s"
  by (simp add: flags_frame_def)

lemma flags_frame_trans: "flags_frame ix a b \<Longrightarrow> flags_frame ix b c \<Longrightarrow> flags_frame ix a c"
  by (simp add: flags_frame_def)

lemma fold_into_flags:
  assumes ne: "ix \<noteq> iy" and lx: "ix < length s" and ly: "iy < length s"
    and c: "fold_into ix iy s = Inr s'"
  shows "flags_frame ix s s'"
proof -
  note h = fold_into_char [OF ne lx ly c]
  note x = h(3) [unfolded core_def prod.inject, simplified]
  note y = h(4) [unfolded core_add_fields, unfolded core_def prod.inject, simplified]
  have "js (s' ! k) = js (s ! k) \<and>
      (k \<noteq> ix \<longrightarrow> t_flag (s' ! k) = t_flag (s ! k) \<and> ifdept_flag (s' ! k) = ifdept_flag (s ! k))"
    for k
  proof (cases "k = ix \<or> k = iy")
    case True
    then show ?thesis using x y ne by auto
  next
    case False
    then show ?thesis using h(2) [of k] by simp
  qed
  then show ?thesis using h(1) by (simp add: flags_frame_def)
qed

lemma maybe_fold_flags:
  assumes "ix \<noteq> iy" "ix < length s" "iy < length s"
    and "(if c then fold_into ix iy s else Inr s) = Inr s'"
  shows "flags_frame ix s s'"
  using assms by (auto split: if_splits intro: fold_into_flags flags_frame_refl)

lemma search_step_flags:
  assumes ly: "idxhigh < length s" and c: "search_step idxhigh highest ix s = Inr s'"
  shows "flags_frame ix s s' \<and> (s' = s \<or> (ix < length s \<and> fold_guard s idxhigh highest ix))"
proof (cases "ix < length s \<and> fold_guard s idxhigh highest ix")
  case False
  with c have "s' = s"
    by (auto simp add: search_step_def Let_def fold_guard_def split: if_splits)
  then show ?thesis by (simp add: flags_frame_refl)
next
  case True
  then have lx: "ix < length s" and g: "fold_guard s idxhigh highest ix" by simp_all
  then have ne: "ix \<noteq> idxhigh" by (simp add: fold_guard_def)
  define c1 where "c1 = (ftype (s ! ix) = 1 \<or> ftype (s ! ix) = 3 \<or> ftype (s ! ix) = 5)"
  from c lx g have e: "then_err
      (if c1 then
         then_err (if totincx (s ! ix) \<le> 0 then fold_into ix idxhigh s else Inr s)
           (\<lambda>us1. if 0 < totincx (s ! ix) \<and> totincx (s ! ix) \<le> 3000
                  then fold_into ix idxhigh us1 else Inr us1)
       else Inr s)
      (\<lambda>us2. if relcode (s ! ix) = 11 then fold_into ix idxhigh us2 else Inr us2) = Inr s'"
    unfolding search_step_def Let_def
    by (simp add: fold_guard_def c1_def split del: if_split cong: if_weak_cong)
  from then_err_Inr [OF e] obtain s2 where
    a: "(if c1 then
         then_err (if totincx (s ! ix) \<le> 0 then fold_into ix idxhigh s else Inr s)
           (\<lambda>us1. if 0 < totincx (s ! ix) \<and> totincx (s ! ix) \<le> 3000
                  then fold_into ix idxhigh us1 else Inr us1)
       else Inr s) = Inr s2"
    and b: "(if relcode (s ! ix) = 11 then fold_into ix idxhigh s2 else Inr s2) = Inr s'"
    by blast
  have f2: "flags_frame ix s s2"
  proof (cases c1)
    case False
    with a show ?thesis by (simp add: flags_frame_refl)
  next
    case True
    with a have "then_err (if totincx (s ! ix) \<le> 0 then fold_into ix idxhigh s else Inr s)
           (\<lambda>us1. if 0 < totincx (s ! ix) \<and> totincx (s ! ix) \<le> 3000
                  then fold_into ix idxhigh us1 else Inr us1) = Inr s2"
      by simp
    from then_err_Inr [OF this] obtain s1 where
      a1: "(if totincx (s ! ix) \<le> 0 then fold_into ix idxhigh s else Inr s) = Inr s1"
      and a2: "(if 0 < totincx (s ! ix) \<and> totincx (s ! ix) \<le> 3000
                  then fold_into ix idxhigh s1 else Inr s1) = Inr s2"
      by blast
    have f1: "flags_frame ix s s1" by (rule maybe_fold_flags [OF ne lx ly a1])
    then have l1: "length s1 = length s" by (simp add: flags_frame_def)
    have "flags_frame ix s1 s2"
      by (rule maybe_fold_flags [OF ne _ _ a2]) (simp_all add: l1 lx ly)
    with f1 show ?thesis by (rule flags_frame_trans)
  qed
  then have l2: "length s2 = length s" by (simp add: flags_frame_def)
  have "flags_frame ix s2 s'"
    by (rule maybe_fold_flags [OF ne _ _ b]) (simp_all add: l2 lx ly)
  with f2 have "flags_frame ix s s'" by (rule flags_frame_trans)
  with True show ?thesis by simp
qed

lemma search_step_inv:
  assumes ly: "idxhigh < length us" and inv: "search_inv us idxhigh highest s"
    and c: "search_step idxhigh highest ix s = Inr s'"
  shows "search_inv us idxhigh highest s'"
proof -
  have len: "length s = length us" using inv by (simp add: search_inv_def)
  from search_step_flags [OF _ c] ly len
  have fr: "flags_frame ix s s'"
    and alt: "s' = s \<or> (ix < length s \<and> fold_guard s idxhigh highest ix)"
    by simp_all
  show ?thesis
  proof (cases "s' = s")
    case True
    with inv show ?thesis by simp
  next
    case False
    with alt have lx: "ix < length us" and g: "fold_guard s idxhigh highest ix"
      using len by simp_all
    have gus: "fold_guard us idxhigh highest ix"
    proof -
      have "\<not> ifdept_flag (us ! ix)"
      proof
        assume d: "ifdept_flag (us ! ix)"
        with g have "ifdept_flag (s ! ix) \<noteq> ifdept_flag (us ! ix)" by (simp add: fold_guard_def)
        with inv lx have "fold_guard us idxhigh highest ix" by (simp add: search_inv_def)
        with d show False by (simp add: fold_guard_def)
      qed
      moreover have "js (us ! ix) = js (s ! ix)" using inv lx by (simp add: search_inv_def)
      ultimately show ?thesis using g by (simp add: fold_guard_def)
    qed
    have "js (s' ! k) = js (us ! k) \<and>
        ((t_flag (s' ! k) \<noteq> t_flag (us ! k) \<or> ifdept_flag (s' ! k) \<noteq> ifdept_flag (us ! k))
            \<longrightarrow> fold_guard us idxhigh highest k)" if k: "k < length us" for k
    proof (cases "k = ix")
      case True
      then show ?thesis using fr inv k len gus by (simp add: flags_frame_def search_inv_def)
    next
      case False
      then show ?thesis using fr inv k len by (simp add: flags_frame_def search_inv_def)
    qed
    then show ?thesis using fr len by (simp add: search_inv_def flags_frame_def)
  qed
qed

lemma search_invD:
  assumes "search_inv us i h s" and "k < length us"
    and "t_flag (s ! k) \<noteq> t_flag (us ! k) \<or> ifdept_flag (s ! k) \<noteq> ifdept_flag (us ! k)"
  shows "fold_guard us i h k"
proof -
  from assms(1) have "\<forall>k<length us. js (s ! k) = js (us ! k) \<and>
         ((t_flag (s ! k) \<noteq> t_flag (us ! k) \<or> ifdept_flag (s ! k) \<noteq> ifdept_flag (us ! k))
            \<longrightarrow> fold_guard us i h k)"
    unfolding search_inv_def by (rule conjunct2)
  then have "js (s ! k) = js (us ! k) \<and>
         ((t_flag (s ! k) \<noteq> t_flag (us ! k) \<or> ifdept_flag (s ! k) \<noteq> ifdept_flag (us ! k))
            \<longrightarrow> fold_guard us i h k)"
    using assms(2) by blast
  then have "(t_flag (s ! k) \<noteq> t_flag (us ! k) \<or> ifdept_flag (s ! k) \<noteq> ifdept_flag (us ! k))
            \<longrightarrow> fold_guard us i h k"
    by (rule conjunct2)
  then show ?thesis using assms(3) by (rule mp)
qed

lemma search_loop_inv:
  assumes "idxhigh < length us"
  shows "search_inv us idxhigh highest s \<Longrightarrow>
         fold_err (search_step idxhigh highest) ixs s = Inr s' \<Longrightarrow>
         search_inv us idxhigh highest s'"
proof (induction ixs arbitrary: s)
  case Nil
  then show ?case by simp
next
  case (Cons ix ixs)
  from Cons.prems(2) obtain s1 where a: "search_step idxhigh highest ix s = Inr s1"
    and b: "fold_err (search_step idxhigh highest) ixs s1 = Inr s'"
    by (auto split: sum.splits)
  from search_step_inv [OF assms Cons.prems(1) a] b show ?case by (rule Cons.IH)
qed

text \<open>
  Where \<open>search\<close> folds: each conversion of its second loop moves the unit at \<open>ix\<close> under
  the unit at \<open>idxhigh\<close>, and the loop changes no third unit.
\<close>

lemma fold_into_folded:
  assumes ne: "ix \<noteq> iy" and lx: "ix < length a" and ly: "iy < length a"
    and c: "fold_into ix iy a = Inr b"
  shows "folded_into ix iy a b"
proof -
  note h = fold_into_char [OF ne lx ly c]
  note x = h(3) [unfolded core_def prod.inject, simplified]
  note y = h(4) [unfolded core_add_fields, unfolded core_def prod.inject, simplified]
  note d = fold_into_dep_slots [OF ne lx ly c]
  have o: "\<forall>k. k \<noteq> ix \<and> k \<noteq> iy \<longrightarrow> b ! k = a ! k" using h(2) by blast
  have fx: "\<not> t_flag (b ! ix)" "ifdept_flag (b ! ix)" "depne (b ! ix) = 0" "js (b ! ix) = js (a ! ix)"
    using x by simp_all
  have dn: "depne (b ! iy) = depne (a ! iy) + (depne (a ! ix) + (if js (a ! ix) = 2 then 2 else 1))"
    using y by simp
  then have lt: "depne (a ! iy) < depne (b ! iy)" by simp
  have "depne (a ! iy) < depne (a ! iy) + 1 \<and> depne (a ! iy) + 1 \<le> depne (b ! iy) \<and>
      dep (b ! iy) (depne (a ! iy) + 1) = Some (int ix)"
    using d(1) dn by simp
  then have ex: "\<exists>m. depne (a ! iy) < m \<and> m \<le> depne (b ! iy) \<and> dep (b ! iy) m = Some (int ix)" ..
  have keep: "\<forall>n. n \<le> depne (a ! iy) \<longrightarrow> dep (b ! iy) n = dep (a ! iy) n" using d(2) by blast
  have fy: "js (b ! iy) = js (a ! iy)" "t_flag (b ! iy) = t_flag (a ! iy)"
    "ifdept_flag (b ! iy) = ifdept_flag (a ! iy)" "totincx (b ! iy) = totincx (a ! iy)"
    using y by (simp_all add: totincx_upd)
  show ?thesis
    unfolding folded_into_def by (intro conjI h(1) o fx lt ex keep fy)
qed

lemma folded_into_trans:
  assumes ab: "folded_into ix iy a b" and bc: "folded_into ix iy b c"
  shows "folded_into ix iy a c"
proof -
  from ab have a1: "length b = length a"
    and a2: "\<forall>k. k \<noteq> ix \<and> k \<noteq> iy \<longrightarrow> b ! k = a ! k"
    and a3: "js (b ! ix) = js (a ! ix)"
    and a4: "depne (a ! iy) < depne (b ! iy)"
    and a5: "\<exists>m. depne (a ! iy) < m \<and> m \<le> depne (b ! iy) \<and> dep (b ! iy) m = Some (int ix)"
    and a6: "\<forall>n. n \<le> depne (a ! iy) \<longrightarrow> dep (b ! iy) n = dep (a ! iy) n"
    and a7: "js (b ! iy) = js (a ! iy)" "t_flag (b ! iy) = t_flag (a ! iy)"
      "ifdept_flag (b ! iy) = ifdept_flag (a ! iy)" "totincx (b ! iy) = totincx (a ! iy)"
    unfolding folded_into_def by blast+
  from bc have b1: "length c = length b"
    and b2: "\<forall>k. k \<noteq> ix \<and> k \<noteq> iy \<longrightarrow> c ! k = b ! k"
    and b3: "\<not> t_flag (c ! ix)" "ifdept_flag (c ! ix)" "depne (c ! ix) = 0"
      "js (c ! ix) = js (b ! ix)"
    and b4: "depne (b ! iy) < depne (c ! iy)"
    and b6: "\<forall>n. n \<le> depne (b ! iy) \<longrightarrow> dep (c ! iy) n = dep (b ! iy) n"
    and b7: "js (c ! iy) = js (b ! iy)" "t_flag (c ! iy) = t_flag (b ! iy)"
      "ifdept_flag (c ! iy) = ifdept_flag (b ! iy)" "totincx (c ! iy) = totincx (b ! iy)"
    unfolding folded_into_def by blast+
  from a5 obtain m where m: "depne (a ! iy) < m" "m \<le> depne (b ! iy)"
    "dep (b ! iy) m = Some (int ix)" by blast
  have "dep (c ! iy) m = Some (int ix)" using b6 m(2,3) by simp
  moreover have "m \<le> depne (c ! iy)" using m(2) b4 by simp
  ultimately have ex: "\<exists>m. depne (a ! iy) < m \<and> m \<le> depne (c ! iy) \<and>
      dep (c ! iy) m = Some (int ix)"
    using m(1) by blast
  have keep: "\<forall>n. n \<le> depne (a ! iy) \<longrightarrow> dep (c ! iy) n = dep (a ! iy) n"
  proof (intro allI impI)
    fix n assume n: "n \<le> depne (a ! iy)"
    then have "n \<le> depne (b ! iy)" using a4 by simp
    then have "dep (c ! iy) n = dep (b ! iy) n" using b6 by simp
    also have "\<dots> = dep (a ! iy) n" using a6 n by simp
    finally show "dep (c ! iy) n = dep (a ! iy) n" .
  qed
  have o: "\<forall>k. k \<noteq> ix \<and> k \<noteq> iy \<longrightarrow> c ! k = a ! k" using a2 b2 by simp
  have l: "length c = length a" using a1 b1 by simp
  have j: "js (c ! ix) = js (a ! ix)" using a3 b3(4) by simp
  have lt: "depne (a ! iy) < depne (c ! iy)" using a4 b4 by simp
  have fy: "js (c ! iy) = js (a ! iy)" "t_flag (c ! iy) = t_flag (a ! iy)"
    "ifdept_flag (c ! iy) = ifdept_flag (a ! iy)" "totincx (c ! iy) = totincx (a ! iy)"
    using a7 b7 by simp_all
  show ?thesis
    unfolding folded_into_def by (intro conjI l o b3(1,2,3) j lt ex keep fy)
qed

lemma maybe_fold_folded:
  assumes "ix \<noteq> iy" "ix < length s" "iy < length s"
    and "(if c then fold_into ix iy s else Inr s) = Inr s'"
  shows "s' = s \<or> folded_into ix iy s s'"
  using assms by (auto split: if_splits intro: fold_into_folded)

lemma maybe_folded_trans:
  assumes "b = a \<or> folded_into ix iy a b" and "c = b \<or> folded_into ix iy b c"
  shows "c = a \<or> folded_into ix iy a c"
  using assms by (auto intro: folded_into_trans)

lemma maybe_folded_length:
  "b = a \<or> folded_into ix iy a b \<Longrightarrow> length b = length a"
  by (auto simp add: folded_into_def)


lemma search_step_folded:
  assumes ly: "idxhigh < length s" and c: "search_step idxhigh highest ix s = Inr s'"
  shows "s' = s \<or> (ix < length s \<and> fold_guard s idxhigh highest ix \<and>
                     folded_into ix idxhigh s s')"
proof (cases "ix < length s \<and> fold_guard s idxhigh highest ix")
  case False
  with c have "s' = s"
    by (auto simp add: search_step_def Let_def fold_guard_def split: if_splits)
  then show ?thesis by simp
next
  case True
  then have lx: "ix < length s" and g: "fold_guard s idxhigh highest ix" by simp_all
  then have ne: "ix \<noteq> idxhigh" by (simp add: fold_guard_def)
  define c1 where "c1 = (ftype (s ! ix) = 1 \<or> ftype (s ! ix) = 3 \<or> ftype (s ! ix) = 5)"
  from c lx g have e: "then_err
      (if c1 then
         then_err (if totincx (s ! ix) \<le> 0 then fold_into ix idxhigh s else Inr s)
           (\<lambda>us1. if 0 < totincx (s ! ix) \<and> totincx (s ! ix) \<le> 3000
                  then fold_into ix idxhigh us1 else Inr us1)
       else Inr s)
      (\<lambda>us2. if relcode (s ! ix) = 11 then fold_into ix idxhigh us2 else Inr us2) = Inr s'"
    unfolding search_step_def Let_def
    by (simp add: fold_guard_def c1_def split del: if_split cong: if_weak_cong)
  from then_err_Inr [OF e] obtain s2 where
    a: "(if c1 then
         then_err (if totincx (s ! ix) \<le> 0 then fold_into ix idxhigh s else Inr s)
           (\<lambda>us1. if 0 < totincx (s ! ix) \<and> totincx (s ! ix) \<le> 3000
                  then fold_into ix idxhigh us1 else Inr us1)
       else Inr s) = Inr s2"
    and b: "(if relcode (s ! ix) = 11 then fold_into ix idxhigh s2 else Inr s2) = Inr s'"
    by blast
  have f2: "s2 = s \<or> folded_into ix idxhigh s s2"
  proof (cases c1)
    case False
    with a show ?thesis by simp
  next
    case True
    with a have "then_err (if totincx (s ! ix) \<le> 0 then fold_into ix idxhigh s else Inr s)
           (\<lambda>us1. if 0 < totincx (s ! ix) \<and> totincx (s ! ix) \<le> 3000
                  then fold_into ix idxhigh us1 else Inr us1) = Inr s2"
      by simp
    from then_err_Inr [OF this] obtain s1 where
      a1: "(if totincx (s ! ix) \<le> 0 then fold_into ix idxhigh s else Inr s) = Inr s1"
      and a2: "(if 0 < totincx (s ! ix) \<and> totincx (s ! ix) \<le> 3000
                  then fold_into ix idxhigh s1 else Inr s1) = Inr s2"
      by blast
    have f1: "s1 = s \<or> folded_into ix idxhigh s s1"
      by (rule maybe_fold_folded [OF ne lx ly a1])
    then have l1: "length s1 = length s" by (rule maybe_folded_length)
    have "s2 = s1 \<or> folded_into ix idxhigh s1 s2"
      by (rule maybe_fold_folded [OF ne _ _ a2]) (simp_all add: l1 lx ly)
    with f1 show ?thesis by (rule maybe_folded_trans)
  qed
  then have l2: "length s2 = length s" by (rule maybe_folded_length)
  have "s' = s2 \<or> folded_into ix idxhigh s2 s'"
    by (rule maybe_fold_folded [OF ne _ _ b]) (simp_all add: l2 lx ly)
  with f2 have "s' = s \<or> folded_into ix idxhigh s s'" by (rule maybe_folded_trans)
  with True show ?thesis by blast
qed

lemma target_inv_step:
  assumes li: "hi < length us" and inv: "target_inv us hi hst s"
    and lx: "ix < length s" and g: "fold_guard s hi hst ix"
    and f: "folded_into ix hi s s'"
  shows "target_inv us hi hst s'"
proof -
  from inv have i1: "length s = length us" and i2: "depne (us ! hi) \<le> depne (s ! hi)"
    and i3: "\<forall>n. n \<le> depne (us ! hi) \<longrightarrow> dep (s ! hi) n = dep (us ! hi) n"
    and i4: "js (s ! hi) = js (us ! hi)" "t_flag (s ! hi) = t_flag (us ! hi)"
      "ifdept_flag (s ! hi) = ifdept_flag (us ! hi)" "totincx (s ! hi) = totincx (us ! hi)"
    and i5: "\<forall>k. k < length us \<and> k \<noteq> hi \<longrightarrow>
         s ! k = us ! k \<or>
         (fold_guard us hi hst k \<and> \<not> t_flag (s ! k) \<and> ifdept_flag (s ! k) \<and>
          depne (s ! k) = 0 \<and>
          (\<exists>m. depne (us ! hi) < m \<and> m \<le> depne (s ! hi) \<and>
               dep (s ! hi) m = Some (int k)))"
    unfolding target_inv_def by blast+
  from f have f1: "length s' = length s"
    and f2: "\<forall>k. k \<noteq> ix \<and> k \<noteq> hi \<longrightarrow> s' ! k = s ! k"
    and f3: "\<not> t_flag (s' ! ix)" "ifdept_flag (s' ! ix)" "depne (s' ! ix) = 0"
    and f4: "depne (s ! hi) < depne (s' ! hi)"
    and f5: "\<exists>m. depne (s ! hi) < m \<and> m \<le> depne (s' ! hi) \<and> dep (s' ! hi) m = Some (int ix)"
    and f6: "\<forall>n. n \<le> depne (s ! hi) \<longrightarrow> dep (s' ! hi) n = dep (s ! hi) n"
    and f7: "js (s' ! hi) = js (s ! hi)" "t_flag (s' ! hi) = t_flag (s ! hi)"
      "ifdept_flag (s' ! hi) = ifdept_flag (s ! hi)" "totincx (s' ! hi) = totincx (s ! hi)"
    unfolding folded_into_def by blast+
  from g have g1: "ix \<noteq> hi" and g2: "\<not> ifdept_flag (s ! ix)"
    by (simp_all add: fold_guard_def)
  have lxu: "ix < length us" using lx i1 by simp
  have same: "s ! ix = us ! ix"
  proof -
    from i5 lxu g1 have "s ! ix = us ! ix \<or> ifdept_flag (s ! ix)" by blast
    with g2 show ?thesis by simp
  qed
  have gus: "fold_guard us hi hst ix" using g same by (simp add: fold_guard_def)
  have c1: "length s' = length us" using f1 i1 by simp
  have c2: "depne (us ! hi) \<le> depne (s' ! hi)" using i2 f4 by simp
  have c3: "\<forall>n. n \<le> depne (us ! hi) \<longrightarrow> dep (s' ! hi) n = dep (us ! hi) n"
  proof (intro allI impI)
    fix n assume n: "n \<le> depne (us ! hi)"
    then have "n \<le> depne (s ! hi)" using i2 by simp
    then have "dep (s' ! hi) n = dep (s ! hi) n" using f6 by simp
    also have "\<dots> = dep (us ! hi) n" using i3 n by simp
    finally show "dep (s' ! hi) n = dep (us ! hi) n" .
  qed
  have c4: "js (s' ! hi) = js (us ! hi)" "t_flag (s' ! hi) = t_flag (us ! hi)"
      "ifdept_flag (s' ! hi) = ifdept_flag (us ! hi)" "totincx (s' ! hi) = totincx (us ! hi)"
    using i4 f7 by simp_all
  have c5: "\<forall>k. k < length us \<and> k \<noteq> hi \<longrightarrow>
         s' ! k = us ! k \<or>
         (fold_guard us hi hst k \<and> \<not> t_flag (s' ! k) \<and> ifdept_flag (s' ! k) \<and>
          depne (s' ! k) = 0 \<and>
          (\<exists>m. depne (us ! hi) < m \<and> m \<le> depne (s' ! hi) \<and>
               dep (s' ! hi) m = Some (int k)))"
  proof (intro allI impI)
    fix k assume k: "k < length us \<and> k \<noteq> hi"
    show "s' ! k = us ! k \<or>
         (fold_guard us hi hst k \<and> \<not> t_flag (s' ! k) \<and> ifdept_flag (s' ! k) \<and>
          depne (s' ! k) = 0 \<and>
          (\<exists>m. depne (us ! hi) < m \<and> m \<le> depne (s' ! hi) \<and>
               dep (s' ! hi) m = Some (int k)))"
    proof (cases "k = ix")
      case True
      from f5 obtain m where m: "depne (s ! hi) < m" "m \<le> depne (s' ! hi)"
        "dep (s' ! hi) m = Some (int ix)" by blast
      have "depne (us ! hi) < m" using i2 m(1) by simp
      with m have "\<exists>m. depne (us ! hi) < m \<and> m \<le> depne (s' ! hi) \<and>
          dep (s' ! hi) m = Some (int ix)" by blast
      with gus f3 True show ?thesis by simp
    next
      case False
      with k f2 have e: "s' ! k = s ! k" by simp
      from i5 k have "s ! k = us ! k \<or>
         (fold_guard us hi hst k \<and> \<not> t_flag (s ! k) \<and> ifdept_flag (s ! k) \<and>
          depne (s ! k) = 0 \<and>
          (\<exists>m. depne (us ! hi) < m \<and> m \<le> depne (s ! hi) \<and>
               dep (s ! hi) m = Some (int k)))" by blast
      then show ?thesis
      proof
        assume "s ! k = us ! k"
        then show ?thesis using e by simp
      next
        assume r: "fold_guard us hi hst k \<and> \<not> t_flag (s ! k) \<and> ifdept_flag (s ! k) \<and>
          depne (s ! k) = 0 \<and>
          (\<exists>m. depne (us ! hi) < m \<and> m \<le> depne (s ! hi) \<and>
               dep (s ! hi) m = Some (int k))"
        then obtain m where m: "depne (us ! hi) < m" "m \<le> depne (s ! hi)"
          "dep (s ! hi) m = Some (int k)" by blast
        have "dep (s' ! hi) m = Some (int k)" using f6 m(2,3) by simp
        moreover have "m \<le> depne (s' ! hi)" using m(2) f4 by simp
        ultimately have "\<exists>m. depne (us ! hi) < m \<and> m \<le> depne (s' ! hi) \<and>
          dep (s' ! hi) m = Some (int k)" using m(1) by blast
        with r e show ?thesis by simp
      qed
    qed
  qed
  show ?thesis
    unfolding target_inv_def by (intro conjI c1 c2 c3 c4 c5)
qed

lemma target_inv_loop:
  assumes "hi < length us"
  shows "target_inv us hi hst s \<Longrightarrow>
         fold_err (search_step hi hst) ixs s = Inr s' \<Longrightarrow>
         target_inv us hi hst s'"
proof (induction ixs arbitrary: s)
  case Nil
  then show ?case by simp
next
  case (Cons ix ixs)
  from Cons.prems(2) obtain s1 where a: "search_step hi hst ix s = Inr s1"
    and b: "fold_err (search_step hi hst) ixs s1 = Inr s'"
    by (auto split: sum.splits)
  have l: "hi < length s" using Cons.prems(1) assms by (simp add: target_inv_def)
  from search_step_folded [OF l a]
  have "target_inv us hi hst s1"
  proof
    assume "s1 = s"
    then show ?thesis using Cons.prems(1) by simp
  next
    assume "ix < length s \<and> fold_guard s hi hst ix \<and> folded_into ix hi s s1"
    then show ?thesis using target_inv_step [OF assms Cons.prems(1)] by blast
  qed
  then show ?case using b by (rule Cons.IH)
qed

lemma target_inv_search:
  assumes li: "idxhigh < length us" and fh: "find_highest us = (highest, idxhigh)"
    and s: "search n us = Inr us'"
  shows "target_inv us idxhigh highest us'"
proof -
  have init: "target_inv us idxhigh highest us" by (simp add: target_inv_def)
  show ?thesis
  proof (cases "ifdept_flag (us ! idxhigh)")
    case True
    with s li fh have "us' = us" by (simp add: search_def Let_def)
    with init show ?thesis by simp
  next
    case False
    with s li fh have "fold_err (search_step idxhigh highest) [0..<n] us = Inr us'"
      by (simp add: search_def Let_def)
    with init show ?thesis by (rule target_inv_loop [OF li])
  qed
qed

text \<open>An example of the tie: of two units with the highest income, the later wins.\<close>

lemma find_highest_tie:
  "find_highest [idle_unit, idle_unit\<lparr>lineno := 4\<rparr>, idle_unit\<lparr>lineno := 5, was := - 1\<rparr>] =
     (0, 1)"
  by (simp add: find_highest_def idle_unit_def blank_unit_def totincx_def)

text \<open>
  C4: let the household have at least one unit and no total income below the initial
  value \<open>-9.9e32\<close> of the search. Then the first loop of \<open>search\<close> leaves in \<open>highest\<close> the
  maximal total income and in \<open>idxhigh\<close> the index that \<open>index\<close> gives for the last unit
  \<open>j\<close> with that income: the unit at \<open>idxhigh\<close> equals the unit at \<open>j\<close>, and \<open>idxhigh\<close> is
  \<open>j\<close> when the units are pairwise different. Whenever \<open>search\<close> returns and the \<open>t_flag\<close>
  or the \<open>ifdept\<close> of a unit \<open>ix\<close> has changed, the top unit was not a dependent, its
  income was strictly positive, and \<open>ix\<close> was neither the top unit, nor a dependent, nor
  a joint filer. And the unit at \<open>idxhigh\<close> is the one target of every fold: whenever
  \<open>search\<close> returns, the unit at \<open>idxhigh\<close> has kept its filing status, its flags, its
  total income and its old dependent slots, and every other unit is either exactly the
  unit it was, or it passed those conditions, has lost its \<open>t_flag\<close>, is a dependent with
  no dependents of its own, and its index stands in a new dependent slot of the unit at
  \<open>idxhigh\<close>.
\<close>

theorem search_target_and_guard:
  assumes ne: "us \<noteq> []" and fl: "\<forall>u\<in>set us. - (99 * 10 ^ 31) \<le> totincx u"
    and fh: "find_highest us = (highest, idxhigh)"
  shows "idxhigh < length us \<and> totincx (us ! idxhigh) = highest \<and>
         (\<forall>k<length us. totincx (us ! k) \<le> highest) \<and>
         (\<exists>j<length us. us ! idxhigh = us ! j \<and> idxhigh \<le> j \<and>
            (\<forall>k<length us. j < k \<longrightarrow> totincx (us ! k) < highest) \<and>
            (distinct us \<longrightarrow> idxhigh = j)) \<and>
         (\<forall>n us' ix.
            search n us = Inr us' \<and> ix < length us \<and>
            (t_flag (us' ! ix) \<noteq> t_flag (us ! ix) \<or>
             ifdept_flag (us' ! ix) \<noteq> ifdept_flag (us ! ix)) \<longrightarrow>
            \<not> ifdept_flag (us ! idxhigh) \<and> highest > 0 \<and> ix \<noteq> idxhigh \<and>
            \<not> ifdept_flag (us ! ix) \<and> js (us ! ix) \<noteq> 2) \<and>
         (\<forall>n us'.
            search n us = Inr us' \<longrightarrow>
            length us' = length us \<and>
            js (us' ! idxhigh) = js (us ! idxhigh) \<and>
            t_flag (us' ! idxhigh) = t_flag (us ! idxhigh) \<and>
            ifdept_flag (us' ! idxhigh) = ifdept_flag (us ! idxhigh) \<and>
            totincx (us' ! idxhigh) = totincx (us ! idxhigh) \<and>
            depne (us ! idxhigh) \<le> depne (us' ! idxhigh) \<and>
            (\<forall>m. m \<le> depne (us ! idxhigh) \<longrightarrow>
                 dep (us' ! idxhigh) m = dep (us ! idxhigh) m) \<and>
            (\<forall>ix. ix < length us \<and> ix \<noteq> idxhigh \<longrightarrow>
               us' ! ix = us ! ix \<or>
               (\<not> ifdept_flag (us ! idxhigh) \<and> highest > 0 \<and>
                \<not> ifdept_flag (us ! ix) \<and> js (us ! ix) \<noteq> 2 \<and>
                \<not> t_flag (us' ! ix) \<and> ifdept_flag (us' ! ix) \<and> depne (us' ! ix) = 0 \<and>
                (\<exists>m. depne (us ! idxhigh) < m \<and> m \<le> depne (us' ! idxhigh) \<and>
                     dep (us' ! idxhigh) m = Some (int ix)))))"
proof -
  from find_highest_inv [OF ne fl] fh obtain j where j: "j < length us"
    and hj: "highest = totincx (us ! j)" and ij: "idxhigh = index_of us (us ! j)"
    and mx: "\<forall>k<length us. totincx (us ! k) \<le> highest"
    and last: "\<forall>k<length us. j < k \<longrightarrow> totincx (us ! k) < highest"
    unfolding highest_inv_def by auto
  have mem: "us ! j \<in> set us" using j by simp
  from index_of_nth [OF mem] have li: "idxhigh < length us" and eq: "us ! idxhigh = us ! j"
    by (simp_all add: ij)
  have le: "idxhigh \<le> j" unfolding ij by (rule index_of_le [OF j])
  have di: "distinct us \<longrightarrow> idxhigh = j" unfolding ij by (simp add: index_of_distinct j)
  have guard: "\<not> ifdept_flag (us ! idxhigh) \<and> highest > 0 \<and> ix \<noteq> idxhigh \<and>
            \<not> ifdept_flag (us ! ix) \<and> js (us ! ix) \<noteq> 2"
    if s: "search n us = Inr us'" and lx: "ix < length us"
      and ch: "t_flag (us' ! ix) \<noteq> t_flag (us ! ix) \<or>
               ifdept_flag (us' ! ix) \<noteq> ifdept_flag (us ! ix)"
    for n us' ix
  proof (cases "ifdept_flag (us ! idxhigh)")
    case True
    with s li fh have "us' = us" by (simp add: search_def Let_def)
    with ch show ?thesis by simp
  next
    case False
    with s li fh have "fold_err (search_step idxhigh highest) [0..<n] us = Inr us'"
      by (simp add: search_def Let_def)
    moreover have "search_inv us idxhigh highest us" by (simp add: search_inv_def)
    ultimately have "search_inv us idxhigh highest us'"
      by (rule search_loop_inv [OF li, rotated])
    from search_invD [OF this lx ch] have "fold_guard us idxhigh highest ix" .
    with False show ?thesis by (simp add: fold_guard_def)
  qed
  have target: "length us' = length us \<and>
            js (us' ! idxhigh) = js (us ! idxhigh) \<and>
            t_flag (us' ! idxhigh) = t_flag (us ! idxhigh) \<and>
            ifdept_flag (us' ! idxhigh) = ifdept_flag (us ! idxhigh) \<and>
            totincx (us' ! idxhigh) = totincx (us ! idxhigh) \<and>
            depne (us ! idxhigh) \<le> depne (us' ! idxhigh) \<and>
            (\<forall>m. m \<le> depne (us ! idxhigh) \<longrightarrow>
                 dep (us' ! idxhigh) m = dep (us ! idxhigh) m) \<and>
            (\<forall>ix. ix < length us \<and> ix \<noteq> idxhigh \<longrightarrow>
               us' ! ix = us ! ix \<or>
               (\<not> ifdept_flag (us ! idxhigh) \<and> highest > 0 \<and>
                \<not> ifdept_flag (us ! ix) \<and> js (us ! ix) \<noteq> 2 \<and>
                \<not> t_flag (us' ! ix) \<and> ifdept_flag (us' ! ix) \<and> depne (us' ! ix) = 0 \<and>
                (\<exists>m. depne (us ! idxhigh) < m \<and> m \<le> depne (us' ! idxhigh) \<and>
                     dep (us' ! idxhigh) m = Some (int ix))))"
    if s: "search n us = Inr us'" for n us'
  proof -
    from target_inv_search [OF li fh s]
    have t1: "length us' = length us" and t2: "depne (us ! idxhigh) \<le> depne (us' ! idxhigh)"
      and t3: "\<forall>m. m \<le> depne (us ! idxhigh) \<longrightarrow>
                 dep (us' ! idxhigh) m = dep (us ! idxhigh) m"
      and t4: "js (us' ! idxhigh) = js (us ! idxhigh)"
        "t_flag (us' ! idxhigh) = t_flag (us ! idxhigh)"
        "ifdept_flag (us' ! idxhigh) = ifdept_flag (us ! idxhigh)"
        "totincx (us' ! idxhigh) = totincx (us ! idxhigh)"
      and t5: "\<forall>k. k < length us \<and> k \<noteq> idxhigh \<longrightarrow>
         us' ! k = us ! k \<or>
         (fold_guard us idxhigh highest k \<and> \<not> t_flag (us' ! k) \<and> ifdept_flag (us' ! k) \<and>
          depne (us' ! k) = 0 \<and>
          (\<exists>m. depne (us ! idxhigh) < m \<and> m \<le> depne (us' ! idxhigh) \<and>
               dep (us' ! idxhigh) m = Some (int k)))"
      unfolding target_inv_def by blast+
    have t6: "\<forall>ix. ix < length us \<and> ix \<noteq> idxhigh \<longrightarrow>
               us' ! ix = us ! ix \<or>
               (\<not> ifdept_flag (us ! idxhigh) \<and> highest > 0 \<and>
                \<not> ifdept_flag (us ! ix) \<and> js (us ! ix) \<noteq> 2 \<and>
                \<not> t_flag (us' ! ix) \<and> ifdept_flag (us' ! ix) \<and> depne (us' ! ix) = 0 \<and>
                (\<exists>m. depne (us ! idxhigh) < m \<and> m \<le> depne (us' ! idxhigh) \<and>
                     dep (us' ! idxhigh) m = Some (int ix)))"
    proof (cases "ifdept_flag (us ! idxhigh)")
      case True
      with s li fh have "us' = us" by (simp add: search_def Let_def)
      then show ?thesis by simp
    next
      case False
      show ?thesis
      proof (intro allI impI)
        fix ix assume a: "ix < length us \<and> ix \<noteq> idxhigh"
        with t5 have "us' ! ix = us ! ix \<or>
         (fold_guard us idxhigh highest ix \<and> \<not> t_flag (us' ! ix) \<and>
          ifdept_flag (us' ! ix) \<and> depne (us' ! ix) = 0 \<and>
          (\<exists>m. depne (us ! idxhigh) < m \<and> m \<le> depne (us' ! idxhigh) \<and>
               dep (us' ! idxhigh) m = Some (int ix)))" by blast
        with False show "us' ! ix = us ! ix \<or>
               (\<not> ifdept_flag (us ! idxhigh) \<and> highest > 0 \<and>
                \<not> ifdept_flag (us ! ix) \<and> js (us ! ix) \<noteq> 2 \<and>
                \<not> t_flag (us' ! ix) \<and> ifdept_flag (us' ! ix) \<and> depne (us' ! ix) = 0 \<and>
                (\<exists>m. depne (us ! idxhigh) < m \<and> m \<le> depne (us' ! idxhigh) \<and>
                     dep (us' ! idxhigh) m = Some (int ix)))"
          unfolding fold_guard_def by blast
      qed
    qed
    show ?thesis by (intro conjI t1 t2 t3 t4 t6)
  qed
  have top: "totincx (us ! idxhigh) = highest" by (simp only: eq hj)
  have ex: "\<exists>j<length us. us ! idxhigh = us ! j \<and> idxhigh \<le> j \<and>
            (\<forall>k<length us. j < k \<longrightarrow> totincx (us ! k) < highest) \<and>
            (distinct us \<longrightarrow> idxhigh = j)"
    by (rule exI [of _ j]) (intro conjI j eq le last di)
  have gd: "\<forall>n us' ix.
            search n us = Inr us' \<and> ix < length us \<and>
            (t_flag (us' ! ix) \<noteq> t_flag (us ! ix) \<or>
             ifdept_flag (us' ! ix) \<noteq> ifdept_flag (us ! ix)) \<longrightarrow>
            \<not> ifdept_flag (us ! idxhigh) \<and> highest > 0 \<and> ix \<noteq> idxhigh \<and>
            \<not> ifdept_flag (us ! ix) \<and> js (us ! ix) \<noteq> 2"
    by (intro allI impI, elim conjE, rule guard)
  have tg: "\<forall>n us'.
            search n us = Inr us' \<longrightarrow>
            length us' = length us \<and>
            js (us' ! idxhigh) = js (us ! idxhigh) \<and>
            t_flag (us' ! idxhigh) = t_flag (us ! idxhigh) \<and>
            ifdept_flag (us' ! idxhigh) = ifdept_flag (us ! idxhigh) \<and>
            totincx (us' ! idxhigh) = totincx (us ! idxhigh) \<and>
            depne (us ! idxhigh) \<le> depne (us' ! idxhigh) \<and>
            (\<forall>m. m \<le> depne (us ! idxhigh) \<longrightarrow>
                 dep (us' ! idxhigh) m = dep (us ! idxhigh) m) \<and>
            (\<forall>ix. ix < length us \<and> ix \<noteq> idxhigh \<longrightarrow>
               us' ! ix = us ! ix \<or>
               (\<not> ifdept_flag (us ! idxhigh) \<and> highest > 0 \<and>
                \<not> ifdept_flag (us ! ix) \<and> js (us ! ix) \<noteq> 2 \<and>
                \<not> t_flag (us' ! ix) \<and> ifdept_flag (us' ! ix) \<and> depne (us' ! ix) = 0 \<and>
                (\<exists>m. depne (us ! idxhigh) < m \<and> m \<le> depne (us' ! idxhigh) \<and>
                     dep (us' ! idxhigh) m = Some (int ix))))"
    by (intro allI impI, rule target)
  show ?thesis by (intro conjI li top mx ex gd tg)
qed

theorem search_target_and_guard_witness:
  "[wage_unit, subfamily_unit, roomer_unit] \<noteq> [] \<and>
   - (99 * 10 ^ 31) \<le> totincx wage_unit \<and> - (99 * 10 ^ 31) \<le> totincx subfamily_unit \<and>
   - (99 * 10 ^ 31) \<le> totincx roomer_unit \<and>
   find_highest [wage_unit, subfamily_unit, roomer_unit] = (50000, 0) \<and>
   totincx ([wage_unit, subfamily_unit, roomer_unit] ! 0) = 50000 \<and>
   (\<exists>us'. search 3 [wage_unit, subfamily_unit, roomer_unit] = Inr us' \<and>
      t_flag (us' ! 1) \<noteq> t_flag ([wage_unit, subfamily_unit, roomer_unit] ! 1) \<and>
      \<not> ifdept_flag ([wage_unit, subfamily_unit, roomer_unit] ! 0) \<and>
      \<not> ifdept_flag ([wage_unit, subfamily_unit, roomer_unit] ! 1) \<and>
      js ([wage_unit, subfamily_unit, roomer_unit] ! 1) \<noteq> 2 \<and>
      us' ! 2 = roomer_unit \<and>
      (\<exists>m. depne wage_unit < m \<and> m \<le> depne (us' ! 0) \<and> dep (us' ! 0) m = Some 1))"
proof -
  let ?us = "[wage_unit, subfamily_unit, roomer_unit]"
  have fl: "\<forall>u\<in>set ?us. - (99 * 10 ^ 31) \<le> totincx u"
    by (simp add: wage_unit_def subfamily_unit_def roomer_unit_def blank_unit_def totincx_def)
  have fh: "find_highest ?us = (50000, 0)"
    by (simp add: find_highest_def wage_unit_def subfamily_unit_def roomer_unit_def
        blank_unit_def totincx_def)
  have "\<exists>us'. search 3 ?us = Inr us' \<and> t_flag (us' ! 1) \<noteq> t_flag (?us ! 1) \<and>
          \<not> ifdept_flag (us' ! 2)"
    unfolding search_def fh
    by (simp add: search_step_def totincx_def convert_eval wage_unit_def subfamily_unit_def
        roomer_unit_def blank_unit_def upt_rec)
  then obtain us' where s: "search 3 ?us = Inr us'"
    and ch: "t_flag (us' ! 1) \<noteq> t_flag (?us ! 1)"
    and nf: "\<not> ifdept_flag (us' ! 2)" by blast
  have l: "(1::nat) < length ?us" by simp
  have ne: "?us \<noteq> []" by simp
  note th = search_target_and_guard [OF ne fl fh]
  from th have t0: "totincx (?us ! 0) = 50000" by (elim conjE)
  from th have "search 3 ?us = Inr us' \<and> 1 < length ?us \<and>
            (t_flag (us' ! 1) \<noteq> t_flag (?us ! 1) \<or>
             ifdept_flag (us' ! 1) \<noteq> ifdept_flag (?us ! 1)) \<longrightarrow>
            \<not> ifdept_flag (?us ! 0) \<and> (50000::real) > 0 \<and> (1::nat) \<noteq> 0 \<and>
            \<not> ifdept_flag (?us ! 1) \<and> js (?us ! 1) \<noteq> 2"
    by (elim conjE allE [of _ 3] allE [of _ us'] allE [of _ 1])
  with s l ch have g: "\<not> ifdept_flag (?us ! 0) \<and> \<not> ifdept_flag (?us ! 1) \<and> js (?us ! 1) \<noteq> 2"
    by simp
  from th have "\<forall>n us'. search n ?us = Inr us' \<longrightarrow>
            length us' = length ?us \<and>
            js (us' ! 0) = js (?us ! 0) \<and>
            t_flag (us' ! 0) = t_flag (?us ! 0) \<and>
            ifdept_flag (us' ! 0) = ifdept_flag (?us ! 0) \<and>
            totincx (us' ! 0) = totincx (?us ! 0) \<and>
            depne (?us ! 0) \<le> depne (us' ! 0) \<and>
            (\<forall>m. m \<le> depne (?us ! 0) \<longrightarrow> dep (us' ! 0) m = dep (?us ! 0) m) \<and>
            (\<forall>ix. ix < length ?us \<and> ix \<noteq> 0 \<longrightarrow>
               us' ! ix = ?us ! ix \<or>
               (\<not> ifdept_flag (?us ! 0) \<and> (50000::real) > 0 \<and>
                \<not> ifdept_flag (?us ! ix) \<and> js (?us ! ix) \<noteq> 2 \<and>
                \<not> t_flag (us' ! ix) \<and> ifdept_flag (us' ! ix) \<and> depne (us' ! ix) = 0 \<and>
                (\<exists>m. depne (?us ! 0) < m \<and> m \<le> depne (us' ! 0) \<and>
                     dep (us' ! 0) m = Some (int ix))))"
    by (elim conjE)
  with s have fr: "\<forall>ix. ix < length ?us \<and> ix \<noteq> 0 \<longrightarrow>
               us' ! ix = ?us ! ix \<or>
               (\<not> ifdept_flag (?us ! 0) \<and> (50000::real) > 0 \<and>
                \<not> ifdept_flag (?us ! ix) \<and> js (?us ! ix) \<noteq> 2 \<and>
                \<not> t_flag (us' ! ix) \<and> ifdept_flag (us' ! ix) \<and> depne (us' ! ix) = 0 \<and>
                (\<exists>m. depne (?us ! 0) < m \<and> m \<le> depne (us' ! 0) \<and>
                     dep (us' ! 0) m = Some (int ix)))"
    by blast
  from fr have "us' ! 2 = ?us ! 2 \<or> ifdept_flag (us' ! 2)"
    by (elim allE [of _ 2]) auto
  with nf have r2: "us' ! 2 = roomer_unit" by simp
  from fr have "us' ! 1 = ?us ! 1 \<or>
      (\<exists>m. depne (?us ! 0) < m \<and> m \<le> depne (us' ! 0) \<and> dep (us' ! 0) m = Some (int 1))"
    by (elim allE [of _ 1]) auto
  with ch have r1: "\<exists>m. depne wage_unit < m \<and> m \<le> depne (us' ! 0) \<and> dep (us' ! 0) m = Some 1"
    by auto
  have "search 3 ?us = Inr us' \<and> t_flag (us' ! 1) \<noteq> t_flag (?us ! 1) \<and>
      \<not> ifdept_flag (?us ! 0) \<and> \<not> ifdept_flag (?us ! 1) \<and> js (?us ! 1) \<noteq> 2 \<and>
      us' ! 2 = roomer_unit \<and>
      (\<exists>m. depne wage_unit < m \<and> m \<le> depne (us' ! 0) \<and> dep (us' ! 0) m = Some 1)"
    using s ch g r2 r1 by (intro conjI) (elim conjE, assumption)+
  then have "\<exists>us'. search 3 ?us = Inr us' \<and> t_flag (us' ! 1) \<noteq> t_flag (?us ! 1) \<and>
      \<not> ifdept_flag (?us ! 0) \<and> \<not> ifdept_flag (?us ! 1) \<and> js (?us ! 1) \<noteq> 2 \<and>
      us' ! 2 = roomer_unit \<and>
      (\<exists>m. depne wage_unit < m \<and> m \<le> depne (us' ! 0) \<and> dep (us' ! 0) m = Some 1)"
    by (rule exI)
  moreover from fl have "- (99 * 10 ^ 31) \<le> totincx wage_unit"
    "- (99 * 10 ^ 31) \<le> totincx subfamily_unit" "- (99 * 10 ^ 31) \<le> totincx roomer_unit"
    by simp_all
  ultimately show ?thesis using ne fh t0 by (intro conjI)
qed

end
